theory Spec2Isabelle
  imports Main "HOL-Library.Sublist" "HOL-Library.AList"
begin

section \<open>JavaScript strings\<close>

text \<open>
  Strings are byte strings. The operations below are the \<^verbatim>\<open>String.prototype\<close> methods
  that \<^verbatim>\<open>src/scanner.mjs\<close> calls, restricted to ASCII: case mapping touches the
  letters A to Z only, and white space is the six ASCII white-space characters.
\<close>

definition toLowerCaseChar :: "char \<Rightarrow> char" where
  "toLowerCaseChar c =
     (case map_of (zip ''ABCDEFGHIJKLMNOPQRSTUVWXYZ'' ''abcdefghijklmnopqrstuvwxyz'') c of
        Some l \<Rightarrow> l
      | None \<Rightarrow> c)"

definition toLowerCase :: "string \<Rightarrow> string" where
  "toLowerCase s = map toLowerCaseChar s"

definition endsWith :: "string \<Rightarrow> string \<Rightarrow> bool" where
  "endsWith s t = suffix t s"

fun includes_str :: "string \<Rightarrow> string \<Rightarrow> bool" where
  "includes_str [] t = (t = [])"
| "includes_str (c # cs) t = (prefix t (c # cs) \<or> includes_str cs t)"

text \<open>\<^verbatim>\<open>s.replace(pat, rep)\<close> with a string pattern: the first occurrence only.\<close>

fun replace :: "string \<Rightarrow> string \<Rightarrow> string \<Rightarrow> string" where
  "replace [] pat rep = (if pat = [] then rep else [])"
| "replace (c # cs) pat rep =
     (if prefix pat (c # cs) then rep @ drop (length pat) (c # cs)
      else c # replace cs pat rep)"

definition isSpace :: "char \<Rightarrow> bool" where
  "isSpace c = (c \<in> set [CHR 0x09, CHR 0x0A, CHR 0x0B, CHR 0x0C, CHR 0x0D, CHR 0x20])"

definition trim :: "string \<Rightarrow> string" where
  "trim s = rev (dropWhile isSpace (rev (dropWhile isSpace s)))"

text \<open>\<^verbatim>\<open>s.split(c)\<close> for a one-character separator; the result is never empty.\<close>

fun splitOn :: "char \<Rightarrow> string \<Rightarrow> string list" where
  "splitOn sep [] = [[]]"
| "splitOn sep (c # cs) =
     (if c = sep then [] # splitOn sep cs
      else (case splitOn sep cs of
              [] \<Rightarrow> [[c]]
            | y # ys \<Rightarrow> (c # y) # ys))"

text \<open>\<^verbatim>\<open>s.split(/\s+/)\<close>: every maximal run of white space is one separator.\<close>

function splitWs :: "string \<Rightarrow> string list" where
  "splitWs [] = [[]]"
| "splitWs (c # cs) =
     (if isSpace c then [] # splitWs (dropWhile isSpace cs)
      else (case splitWs cs of
              [] \<Rightarrow> [[c]]
            | y # ys \<Rightarrow> (c # y) # ys))"
  by pat_completeness auto
termination
  by (relation "measure length") (auto simp: length_dropWhile_le less_Suc_eq_le)

text \<open>Indexing an array: out of range gives \<^verbatim>\<open>undefined\<close>, here \<open>None\<close>.\<close>

definition at_index :: "'a list \<Rightarrow> nat \<Rightarrow> 'a option" where
  "at_index xs i = (if i < length xs then Some (xs ! i) else None)"

text \<open>A number inside a template literal.\<close>

fun show_nat :: "nat \<Rightarrow> string" where
  "show_nat n =
     (if n < 10 then [''0123456789'' ! n]
      else show_nat (n div 10) @ [''0123456789'' ! (n mod 10)])"

declare show_nat.simps [simp del]

section \<open>Paths\<close>

text \<open>
  The functions of Node's posix \<^verbatim>\<open>path\<close> module that the program calls. They work on
  the text of a path and never look at the file system.

  \<^verbatim>\<open>normalizeString\<close>, on the components of the path: empty components and \<^verbatim>\<open>.\<close> are
  dropped; \<^verbatim>\<open>..\<close> removes the component before it, unless there is none or it is
  \<^verbatim>\<open>..\<close> itself, and then it is kept for a relative path and dropped for an absolute
  one.
\<close>

fun normalizeSegs :: "bool \<Rightarrow> string list \<Rightarrow> string list \<Rightarrow> string list" where
  "normalizeSegs allowAboveRoot res [] = res"
| "normalizeSegs allowAboveRoot res (c # cs) =
     (if c = [] \<or> c = ''.'' then normalizeSegs allowAboveRoot res cs
      else if c = ''..'' then
        (if res \<noteq> [] \<and> last res \<noteq> ''..'' then normalizeSegs allowAboveRoot (butlast res) cs
         else if allowAboveRoot then normalizeSegs allowAboveRoot (res @ [''..'']) cs
         else normalizeSegs allowAboveRoot res cs)
      else normalizeSegs allowAboveRoot (res @ [c]) cs)"

fun joinSegs :: "string list \<Rightarrow> string" where
  "joinSegs [] = []"
| "joinSegs [s] = s"
| "joinSegs (s # t # ss) = s @ ''/'' @ joinSegs (t # ss)"

definition normalizeString :: "string \<Rightarrow> bool \<Rightarrow> string" where
  "normalizeString path allowAboveRoot =
     joinSegs (normalizeSegs allowAboveRoot [] (splitOn CHR ''/'' path))"

text \<open>\<^verbatim>\<open>path.normalize\<close>: a leading and a trailing separator are kept.\<close>

definition normalize_path :: "string \<Rightarrow> string" where
  "normalize_path path =
     (if path = [] then ''.''
      else
        let isAbsolute = (hd path = CHR ''/'');
            trailingSeparator = (last path = CHR ''/'');
            p = normalizeString path (\<not> isAbsolute)
        in if p = [] then (if isAbsolute then ''/'' else if trailingSeparator then ''./'' else ''.'')
           else (if isAbsolute then ''/'' else []) @ p @ (if trailingSeparator then ''/'' else []))"

text \<open>
  \<^verbatim>\<open>path.join(a, b)\<close>: the arguments that are not empty, joined by a separator and
  normalised.
\<close>

definition path_join :: "string \<Rightarrow> string \<Rightarrow> string" where
  "path_join a b =
     (let joined = (if a = [] then b else if b = [] then a else a @ ''/'' @ b)
      in if joined = [] then ''.'' else normalize_path joined)"

text \<open>
  \<^verbatim>\<open>path.dirname\<close> of Node's posix module: scanning from the end and never looking at
  index 0, skip trailing separators, skip the last component, and cut at the separator
  before it.
\<close>

definition dirname :: "string \<Rightarrow> string" where
  "dirname p =
     (if p = [] then ''.''
      else
        let hasRoot = (hd p = CHR ''/'');
            r = dropWhile (\<lambda>c. c \<noteq> CHR ''/'') (dropWhile (\<lambda>c. c = CHR ''/'') (rev (tl p)));
            cut = length r
        in if r = [] then (if hasRoot then ''/'' else ''.'')
           else if hasRoot \<and> cut = 1 then ''//''
           else take cut p)"

section \<open>The file system\<close>

text \<open>
  A directory is the list of its entries in the order \<^verbatim>\<open>readdir\<close> returns them. There
  are no symbolic links, and every entry is a regular file or a directory. The names a
  directory lists are plain (not empty, not a dot name, without a separator) and distinct;
  then \<^verbatim>\<open>stat\<close> of the directory's path joined with a listed name gives the listed
  entry (lemma \<open>listed_entry\<close> below).
\<close>

datatype node = File string | Dir "(string \<times> node) list"

datatype error =
    ENOENT string string
  | ENOTDIR string string
  | EISDIR string string
  | TypeError string
  | YAMLException string
  | SyntaxError string
  | Error string
  | Crash error

text \<open>
  \<open>Error m\<close> is \<^verbatim>\<open>new Error(m)\<close>. \<open>Crash e\<close> is an exception that no \<^verbatim>\<open>try\<close> of the
  program can see, because it is thrown inside a callback: Node ends the process.

  \<^verbatim>\<open>err.message\<close>; a system error names the system call and the path.
\<close>

fun message :: "error \<Rightarrow> string" where
  "message (ENOENT call p) = ''ENOENT: no such file or directory, '' @ call @ '' '' @ [CHR 0x27] @ p @ [CHR 0x27]"
| "message (ENOTDIR call p) = ''ENOTDIR: not a directory, '' @ call @ '' '' @ [CHR 0x27] @ p @ [CHR 0x27]"
| "message (EISDIR call p) = ''EISDIR: illegal operation on a directory, '' @ call"
| "message (TypeError m) = m"
| "message (YAMLException m) = m"
| "message (SyntaxError m) = m"
| "message (Error m) = m"
| "message (Crash e) = message e"

text \<open>
  A location is the list of names that leads from the root to a node.
\<close>

fun lookup_at :: "string list \<Rightarrow> node \<Rightarrow> node option" where
  "lookup_at [] n = Some n"
| "lookup_at (c # cs) (File content) = None"
| "lookup_at (c # cs) (Dir es) =
     (case map_of es c of
        None \<Rightarrow> None
      | Some n \<Rightarrow> lookup_at cs n)"

text \<open>
  How the kernel walks a path, component by component, from a location: every component,
  also an empty one or \<^verbatim>\<open>.\<close>, needs a directory to start from (\<^verbatim>\<open>ENOTDIR\<close> otherwise,
  so a separator after the name of a regular file fails); \<^verbatim>\<open>..\<close> steps to the parent,
  which for the root is the root; a name must be listed (\<^verbatim>\<open>ENOENT\<close> otherwise). Nothing
  is normalised beforehand: \<^verbatim>\<open>missing/..\<close> fails. Every file may be read and written.
\<close>

datatype errno = NoEntry | NotDirectory

fun sys_error :: "errno \<Rightarrow> string \<Rightarrow> string \<Rightarrow> error" where
  "sys_error NoEntry call p = ENOENT call p"
| "sys_error NotDirectory call p = ENOTDIR call p"

fun namei :: "node \<Rightarrow> string list \<Rightarrow> string list \<Rightarrow> errno + string list" where
  "namei root loc [] = Inr loc"
| "namei root loc (c # cs) =
     (case lookup_at loc root of
        None \<Rightarrow> Inl NoEntry
      | Some (File content) \<Rightarrow> Inl NotDirectory
      | Some (Dir es) \<Rightarrow>
          if c = [] \<or> c = ''.'' then namei root loc cs
          else if c = ''..'' then namei root (butlast loc) cs
          else (case map_of es c of
                  None \<Rightarrow> Inl NoEntry
                | Some n \<Rightarrow> namei root (loc @ [c]) cs))"

text \<open>
  The components of a path as the kernel reads it: a relative path starts at the working
  directory. The empty path names nothing.
\<close>

definition components :: "string \<Rightarrow> string \<Rightarrow> string list" where
  "components cwd p =
     (if p \<noteq> [] \<and> hd p = CHR ''/'' then splitOn CHR ''/'' p
      else splitOn CHR ''/'' cwd @ splitOn CHR ''/'' p)"

definition locate :: "node \<Rightarrow> string \<Rightarrow> string \<Rightarrow> errno + string list" where
  "locate root cwd p = (if p = [] then Inl NoEntry else namei root [] (components cwd p))"

text \<open>
  Writing a file at a location replaces the content of an existing regular file where it
  stands in its directory's listing, and adds a new file at the end of the listing. The
  parent directory must exist.
\<close>

fun write_at :: "string \<Rightarrow> string list \<Rightarrow> string \<Rightarrow> node \<Rightarrow> error + node" where
  "write_at p [] content (File old) = Inr (File content)"
| "write_at p [] content (Dir es) = Inl (EISDIR ''open'' p)"
| "write_at p (c # cs) content (File old) = Inl (ENOTDIR ''open'' p)"
| "write_at p (c # cs) content (Dir es) =
     (case map_of es c of
        None \<Rightarrow> (if cs = [] then Inr (Dir (es @ [(c, File content)]))
                 else Inl (ENOENT ''open'' p))
      | Some n \<Rightarrow>
          (case write_at p cs content n of
             Inl e \<Rightarrow> Inl e
           | Inr n' \<Rightarrow> Inr (Dir (AList.update c n' es))))"

text \<open>
  Where \<^verbatim>\<open>open\<close> with \<^verbatim>\<open>O_CREAT\<close> puts the file: the path must end in a name, not in
  a dot name or a separator (\<^verbatim>\<open>EISDIR\<close> otherwise), and the walk to the directory of that
  name must succeed.
\<close>

definition target :: "node \<Rightarrow> string \<Rightarrow> string \<Rightarrow> error + string list" where
  "target root cwd p =
     (if p = [] then Inl (ENOENT ''open'' p)
      else
        let cs = components cwd p;
            named = rev (dropWhile (\<lambda>c. c = []) (rev cs))
        in if named = [] then Inl (EISDIR ''open'' p)
           else
             (case namei root [] (butlast named) of
                Inl e \<Rightarrow> Inl (sys_error e ''open'' p)
              | Inr loc \<Rightarrow>
                  (case lookup_at loc root of
                     None \<Rightarrow> Inl (ENOENT ''open'' p)
                   | Some (File content) \<Rightarrow> Inl (ENOTDIR ''open'' p)
                   | Some (Dir es) \<Rightarrow>
                       if last named = ''.'' \<or> last named = ''..'' \<or> named \<noteq> cs
                       then Inl (EISDIR ''open'' p)
                       else Inr (loc @ [last named]))))"

section \<open>The world a run acts on\<close>

text \<open>
  What a run prints or records, in order. \<open>Log\<close> is one call of \<^verbatim>\<open>log\<close>: a line on
  the console and the same line appended to the run log \<^verbatim>\<open>scan_project_log.txt\<close>,
  which is kept here and not in the file system. \<open>Exec\<close> is a command handed to the shell,
  \<open>Write p c\<close> a successful \<^verbatim>\<open>writeFile\<close> of content \<open>c\<close> to path \<open>p\<close>.
\<close>

datatype event =
    Log string
  | Console string
  | Spinner string string
  | Exec string
  | Stdout string
  | Stderr string
  | Write string string

text \<open>What the shell reports for one command, and how long the command ran (ms).\<close>

record proc_result =
  exit_code :: nat
  out :: string
  err :: string
  duration :: nat

text \<open>
  \<open>fs\<close> is the root directory; \<open>cwd\<close> is \<^verbatim>\<open>process.cwd()\<close>; \<open>moddir\<close> is
  \<^verbatim>\<open>__dirname\<close>; \<open>clock\<close> is \<^verbatim>\<open>Date.now()\<close>; \<open>shell k c\<close> is the result of
  command \<open>c\<close> when it is the \<open>k\<close>-th command started; \<open>started\<close> counts the commands
  started so far; \<open>pending\<close> lists the commands that were started without being awaited
  and whose callback has not run yet.
\<close>

record world =
  fs :: node
  cwd :: string
  moddir :: string
  trace :: "event list"
  clock :: nat
  started :: nat
  pending :: "(nat \<times> string) list"
  shell :: "nat \<Rightarrow> string \<Rightarrow> proc_result"

type_synonym 'a io = "world \<Rightarrow> (error + 'a) \<times> world"

definition ret :: "'a \<Rightarrow> 'a io" where
  "ret x = (\<lambda>w. (Inr x, w))"

definition throw :: "error \<Rightarrow> 'a io" where
  "throw e = (\<lambda>w. (Inl e, w))"

text \<open>\<open>bind m f\<close> is \<^verbatim>\<open>const x = await m; f(x)\<close>: an error of \<open>m\<close> skips \<open>f\<close>.\<close>

definition bind :: "'a io \<Rightarrow> ('a \<Rightarrow> 'b io) \<Rightarrow> 'b io" where
  "bind m f = (\<lambda>w. case m w of
                      (Inl e, w') \<Rightarrow> (Inl e, w')
                    | (Inr x, w') \<Rightarrow> f x w')"

definition seq :: "unit io \<Rightarrow> 'b io \<Rightarrow> 'b io" where
  "seq m n = bind m (\<lambda>u. n)"

text \<open>\<open>catch m h\<close> is \<^verbatim>\<open>try { m } catch (err) { h(err) }\<close>.\<close>

definition catch :: "'a io \<Rightarrow> (error \<Rightarrow> 'a io) \<Rightarrow> 'a io" where
  "catch m h = (\<lambda>w. case m w of
                       (Inl (Crash e), w') \<Rightarrow> (Inl (Crash e), w')
                     | (Inl e, w') \<Rightarrow> h e w'
                     | (Inr x, w') \<Rightarrow> (Inr x, w'))"

definition of_result :: "error + 'a \<Rightarrow> 'a io" where
  "of_result r = (\<lambda>w. (r, w))"

definition emit :: "event \<Rightarrow> unit io" where
  "emit e = (\<lambda>w. (Inr (), w\<lparr>trace := trace w @ [e]\<rparr>))"

definition log :: "string \<Rightarrow> unit io" where
  "log msg = emit (Log msg)"

definition spinner :: "string \<Rightarrow> string \<Rightarrow> unit io" where
  "spinner what text = emit (Spinner what text)"

subsection \<open>File-system calls\<close>

text \<open>
  \<open>resolve w p\<close> is the node that the kernel finds for \<open>p\<close>, and \<open>failure w p\<close> the
  reason when it finds none. \<^verbatim>\<open>pathExists\<close> of fs-extra is \<^verbatim>\<open>fs.access\<close> with its
  error turned into \<^verbatim>\<open>false\<close>.
\<close>

definition resolve :: "world \<Rightarrow> string \<Rightarrow> node option" where
  "resolve w p =
     (case locate (fs w) (cwd w) p of
        Inl e \<Rightarrow> None
      | Inr loc \<Rightarrow> lookup_at loc (fs w))"

definition failure :: "world \<Rightarrow> string \<Rightarrow> errno" where
  "failure w p =
     (case locate (fs w) (cwd w) p of
        Inl e \<Rightarrow> e
      | Inr loc \<Rightarrow> NoEntry)"

definition pathExists :: "string \<Rightarrow> bool io" where
  "pathExists p = (\<lambda>w. (Inr (resolve w p \<noteq> None), w))"

definition stat :: "string \<Rightarrow> node io" where
  "stat p = (\<lambda>w. case resolve w p of
                    None \<Rightarrow> (Inl (sys_error (failure w p) ''stat'' p), w)
                  | Some n \<Rightarrow> (Inr n, w))"

fun isDirectory :: "node \<Rightarrow> bool" where
  "isDirectory (Dir es) = True"
| "isDirectory (File content) = False"

definition readdir :: "string \<Rightarrow> (string \<times> node) list io" where
  "readdir p = (\<lambda>w. case resolve w p of
                       None \<Rightarrow> (Inl (sys_error (failure w p) ''scandir'' p), w)
                     | Some (File content) \<Rightarrow> (Inl (ENOTDIR ''scandir'' p), w)
                     | Some (Dir es) \<Rightarrow> (Inr es, w))"

definition readFile :: "string \<Rightarrow> string io" where
  "readFile p = (\<lambda>w. case resolve w p of
                        None \<Rightarrow> (Inl (sys_error (failure w p) ''open'' p), w)
                      | Some (Dir es) \<Rightarrow> (Inl (EISDIR ''read'' p), w)
                      | Some (File content) \<Rightarrow> (Inr content, w))"

definition writeFile :: "string \<Rightarrow> string \<Rightarrow> unit io" where
  "writeFile p content =
     (\<lambda>w. case target (fs w) (cwd w) p of
             Inl e \<Rightarrow> (Inl e, w)
           | Inr loc \<Rightarrow>
               (case write_at p loc content (fs w) of
                  Inl e \<Rightarrow> (Inl e, w)
                | Inr n \<Rightarrow> (Inr (), w\<lparr>fs := n, trace := trace w @ [Write p content]\<rparr>)))"

subsection \<open>Commands\<close>

text \<open>
  \<open>exec command\<close> starts a command and waits for it: the command is recorded, the clock
  advances by the time it ran, and its result comes from \<open>shell\<close>.
\<close>

definition exec :: "string \<Rightarrow> proc_result io" where
  "exec command =
     (\<lambda>w. let r = shell w (started w) command
           in (Inr r, w\<lparr>trace := trace w @ [Exec command],
                        clock := clock w + duration r,
                        started := Suc (started w)\<rparr>))"

section \<open>Finding the build file\<close>

text \<open>
  \<^verbatim>\<open>findFileRecursively\<close>, over the listing of \<open>directory\<close>: the \<^verbatim>\<open>stat\<close> of each
  listed name is the entry listed under it. A subdirectory is searched when the loop
  reaches it; a regular file matches when its name equals \<open>fileName\<close> up to case.
\<close>

fun findEntries :: "string \<Rightarrow> string \<Rightarrow> (string \<times> node) list \<Rightarrow> string option" where
  "findEntries directory fileName [] = None"
| "findEntries directory fileName ((file, Dir sub) # files) =
     (case findEntries (path_join directory file) fileName sub of
        Some foundPath \<Rightarrow> Some foundPath
      | None \<Rightarrow> findEntries directory fileName files)"
| "findEntries directory fileName ((file, File content) # files) =
     (if toLowerCase file = toLowerCase fileName then Some (path_join directory file)
      else findEntries directory fileName files)"

definition findFileRecursively :: "string \<Rightarrow> string \<Rightarrow> string option io" where
  "findFileRecursively directory fileName =
     bind (readdir directory) (\<lambda>files. ret (findEntries directory fileName files))"

text \<open>\<^verbatim>\<open>scanEntireDirectory\<close>: every regular file under \<open>directory\<close>, depth first.\<close>

fun scanEntries :: "string \<Rightarrow> (string \<times> node) list \<Rightarrow> string list" where
  "scanEntries directory [] = []"
| "scanEntries directory ((file, Dir sub) # files) =
     scanEntries (path_join directory file) sub @ scanEntries directory files"
| "scanEntries directory ((file, File content) # files) =
     path_join directory file # scanEntries directory files"

definition scanEntireDirectory :: "string \<Rightarrow> string list io" where
  "scanEntireDirectory directory =
     (if directory = [] then throw (Error (''Invalid directory path: '' @ directory))
      else bind (readdir directory) (\<lambda>files. ret (scanEntries directory files)))"

section \<open>Building the image\<close>

text \<open>
  \<^verbatim>\<open>buildDockerImage\<close>. The build's output is passed through to the terminal; exit code
  0 resolves, any other code rejects.
\<close>

definition runBuild :: "string \<Rightarrow> string \<Rightarrow> string \<Rightarrow> unit io" where
  "runBuild buildCommand projectName imageTag =
     bind (exec buildCommand) (\<lambda>r.
     seq (emit (Stdout (out r)))
    (seq (emit (Stderr (err r)))
    (if exit_code r = 0 then
       log (''Docker image '' @ [CHR 0x27] @ projectName @ '':'' @ imageTag @ [CHR 0x27]
            @ '' built successfully.'')
     else
       seq (log (''Docker build failed with exit code '' @ show_nat (exit_code r) @ ''.''))
           (throw (Error (''Docker build failed with exit code '' @ show_nat (exit_code r)))))))"

definition buildDockerImage :: "string \<Rightarrow> string \<Rightarrow> string \<Rightarrow> unit io" where
  "buildDockerImage projectPath projectName imageTag =
     seq (log (''Starting Docker image build for project: '' @ projectName
               @ '' with tag: '' @ imageTag))
       (catch
          (bind (findFileRecursively projectPath ''Dockerfile'') (\<lambda>dockerfilePath.
             case dockerfilePath of
               None \<Rightarrow> throw (Error ''Dockerfile not found in project directory'')
             | Some found \<Rightarrow>
                 (let buildContext = dirname found in
                  seq (log (''Using Dockerfile located at: '' @ found))
                 (seq (log (''Using build context: '' @ buildContext))
                 (runBuild (''docker build -t '' @ projectName @ '':'' @ imageTag
                            @ '' '' @ buildContext) projectName imageTag)))))
          (\<lambda>e. seq (log (''Failed to build Docker image for '' @ projectName @ '':''
                          @ imageTag @ '': '' @ message e))
                    (throw e)))"

section \<open>JavaScript values\<close>

text \<open>
  What \<^verbatim>\<open>JSON.parse\<close> and \<^verbatim>\<open>yaml.load\<close> return: a tree of plain values, without
  shared objects (no YAML anchors). The two parsers and their printers are libraries and
  are passed in.
\<close>

datatype jsval =
    JUndefined
  | JNull
  | JBool bool
  | JNum int
  | JStr string
  | JArr "jsval list"
  | JObj "(string \<times> jsval) list"

record lib =
  JSON_parse :: "string \<Rightarrow> error + jsval"
  JSON_stringify :: "jsval \<Rightarrow> string"
  yaml_load :: "string \<Rightarrow> error + jsval"
  yaml_dump :: "jsval \<Rightarrow> string"

fun truthy :: "jsval \<Rightarrow> bool" where
  "truthy JUndefined = False"
| "truthy JNull = False"
| "truthy (JBool b) = b"
| "truthy (JNum n) = (n \<noteq> 0)"
| "truthy (JStr s) = (s \<noteq> [])"
| "truthy (JArr xs) = True"
| "truthy (JObj kvs) = True"

text \<open>
  Reading \<^verbatim>\<open>v.k\<close> for the property names the program uses: a missing property, or any
  property of a primitive or an array, is \<^verbatim>\<open>undefined\<close>; reading from
  \<^verbatim>\<open>undefined\<close> or \<^verbatim>\<open>null\<close> throws.
\<close>

fun getProp :: "jsval \<Rightarrow> string \<Rightarrow> error + jsval" where
  "getProp JUndefined k =
     Inl (TypeError (''Cannot read properties of undefined (reading '' @ [CHR 0x27] @ k @ [CHR 0x27] @ '')''))"
| "getProp JNull k =
     Inl (TypeError (''Cannot read properties of null (reading '' @ [CHR 0x27] @ k @ [CHR 0x27] @ '')''))"
| "getProp (JObj kvs) k = Inr (case map_of kvs k of None \<Rightarrow> JUndefined | Some v \<Rightarrow> v)"
| "getProp (JBool b) k = Inr JUndefined"
| "getProp (JNum n) k = Inr JUndefined"
| "getProp (JStr s) k = Inr JUndefined"
| "getProp (JArr xs) k = Inr JUndefined"

text \<open>
  Assigning \<^verbatim>\<open>v.k = x\<close> in a module (strict mode): an object keeps the position of an
  existing key and adds a new key at the end; a property put on an array is not one of
  its elements and is not printed; a primitive throws.
\<close>

fun setProp :: "jsval \<Rightarrow> string \<Rightarrow> jsval \<Rightarrow> error + jsval" where
  "setProp (JObj kvs) k x = Inr (JObj (AList.update k x kvs))"
| "setProp (JArr xs) k x = Inr (JArr xs)"
| "setProp JUndefined k x =
     Inl (TypeError (''Cannot set properties of undefined (setting '' @ [CHR 0x27] @ k @ [CHR 0x27] @ '')''))"
| "setProp JNull k x =
     Inl (TypeError (''Cannot set properties of null (setting '' @ [CHR 0x27] @ k @ [CHR 0x27] @ '')''))"
| "setProp (JBool b) k x = Inl (TypeError (''Cannot create property '' @ [CHR 0x27] @ k @ [CHR 0x27] @ '' on boolean''))"
| "setProp (JNum n) k x = Inl (TypeError (''Cannot create property '' @ [CHR 0x27] @ k @ [CHR 0x27] @ '' on number''))"
| "setProp (JStr s) k x = Inl (TypeError (''Cannot create property '' @ [CHR 0x27] @ k @ [CHR 0x27] @ '' on string''))"

text \<open>What \<^verbatim>\<open>for (... of v)\<close> runs over.\<close>

fun iterate :: "jsval \<Rightarrow> error + jsval list" where
  "iterate (JArr xs) = Inr xs"
| "iterate (JStr s) = Inr (map (\<lambda>c. JStr [c]) s)"
| "iterate JUndefined = Inl (TypeError ''containers is not iterable'')"
| "iterate JNull = Inl (TypeError ''containers is not iterable'')"
| "iterate (JBool b) = Inl (TypeError ''containers is not iterable'')"
| "iterate (JNum n) = Inl (TypeError ''containers is not iterable'')"
| "iterate (JObj kvs) = Inl (TypeError ''containers is not iterable'')"

text \<open>A value inside a template literal.\<close>

fun toString :: "jsval \<Rightarrow> string"
  and joinElements :: "jsval list \<Rightarrow> string" where
  "toString JUndefined = ''undefined''"
| "toString JNull = ''null''"
| "toString (JBool b) = (if b then ''true'' else ''false'')"
| "toString (JNum n) = (if n < 0 then ''-'' @ show_nat (nat (- n)) else show_nat (nat n))"
| "toString (JStr s) = s"
| "toString (JObj kvs) = ''[object Object]''"
| "toString (JArr xs) = joinElements xs"
| "joinElements [] = []"
| "joinElements (x # xs) =
     (if x = JUndefined \<or> x = JNull then [] else toString x)
     @ (if xs = [] then [] else '','' @ joinElements xs)"

text \<open>
  The object reached from \<open>v\<close> through the keys \<open>ks\<close> is replaced: how a change made
  to that object in place shows in \<open>v\<close>.
\<close>

fun assignPath :: "jsval \<Rightarrow> string list \<Rightarrow> jsval \<Rightarrow> jsval" where
  "assignPath v [] x = x"
| "assignPath (JObj kvs) (k # ks) x =
     JObj (AList.update k (assignPath (case map_of kvs k of None \<Rightarrow> JUndefined | Some v \<Rightarrow> v) ks x) kvs)"
| "assignPath v (k # ks) x = v"

section \<open>Synthesizing the build file\<close>

definition analyzeNodeProject :: "lib \<Rightarrow> string \<Rightarrow> (jsval \<times> string) io" where
  "analyzeNodeProject L projectPath =
     (let packageJsonPath = path_join projectPath ''package.json'';
          indexJsPath = path_join projectPath ''index.js''
      in
      bind (bind (pathExists packageJsonPath) (\<lambda>ex.
              if ex then
                bind (readFile packageJsonPath) (\<lambda>packageJson. of_result (JSON_parse L packageJson))
              else seq (log ''No package.json found.'') (ret (JObj []))))
        (\<lambda>packageJsonData.
      bind (bind (pathExists indexJsPath) (\<lambda>ex.
              if ex then readFile indexJsPath
              else seq (log ''No index.js found.'') (ret [])))
        (\<lambda>indexJsContent.
      ret (packageJsonData, indexJsContent))))"

definition moduleDir :: "string io" where
  "moduleDir = (\<lambda>w. (Inr (moddir w), w))"

definition EXPOSE_3000 :: string where "EXPOSE_3000 = ''EXPOSE 3000''"

definition EXPOSE_8000 :: string where "EXPOSE_8000 = ''EXPOSE 8000''"

definition CMD_npm_start :: string where
  \<open>CMD_npm_start = ''CMD ["npm", "start"]''\<close>

definition CMD_node_index :: string where
  \<open>CMD_node_index = ''CMD ["node", "index.js"]''\<close>

text \<open>The two steps of the \<^verbatim>\<open>nodejs\<close> branch that edit the template.\<close>

definition applyDependencies :: "lib \<Rightarrow> jsval \<Rightarrow> string \<Rightarrow> string io" where
  "applyDependencies L packageJsonData dockerfileContent =
     bind (of_result (getProp packageJsonData ''dependencies'')) (\<lambda>dependencies.
       if truthy dependencies then
         seq (log (''Dependencies found: '' @ JSON_stringify L dependencies))
             (bind (of_result (getProp dependencies ''express'')) (\<lambda>express.
                if truthy express then
                  ret (replace (replace dockerfileContent EXPOSE_3000 EXPOSE_8000)
                               CMD_npm_start CMD_node_index)
                else ret dockerfileContent))
       else ret dockerfileContent)"

definition applyIndexJs :: "string \<Rightarrow> string \<Rightarrow> string io" where
  "applyIndexJs indexJsContent dockerfileContent =
     (if includes_str indexJsContent ''app.listen(8000)'' then
        seq (log ''Port 8000 detected in index.js.'')
            (ret (replace dockerfileContent EXPOSE_3000 EXPOSE_8000))
      else ret dockerfileContent)"

definition generateDockerfile :: "lib \<Rightarrow> string \<Rightarrow> string \<Rightarrow> string io" where
  "generateDockerfile L projectType projectPath =
     (let existingDockerfilePath = path_join projectPath ''Dockerfile'' in
      bind (pathExists existingDockerfilePath) (\<lambda>ex.
        if ex then
          seq (log ''Existing Dockerfile found, skipping generation.'')
              (ret existingDockerfilePath)
        else
          seq (log (''Generating Dockerfile for project type: '' @ projectType))
         (seq (catch
                 (bind
                    (if projectType = ''nodejs'' then
                       seq (log ''Analyzing Node.js project...'')
                      (bind (analyzeNodeProject L projectPath) (\<lambda>(packageJsonData, indexJsContent).
                       bind moduleDir (\<lambda>dir.
                       bind (readFile (path_join dir ''../templates/nodejs.Dockerfile'')) (\<lambda>template.
                       bind (applyDependencies L packageJsonData template) (\<lambda>dockerfileContent.
                       applyIndexJs indexJsContent dockerfileContent)))))
                     else
                       bind moduleDir (\<lambda>dir.
                       readFile (path_join dir (''../templates/'' @ projectType @ ''.Dockerfile''))))
                    (\<lambda>dockerfileContent.
                       seq (log ''Writing the customized Dockerfile...'')
                      (seq (writeFile existingDockerfilePath (trim dockerfileContent))
                           (log (''Dockerfile generated at '' @ existingDockerfilePath)))))
                 (\<lambda>e. seq (log (''Failed to generate Dockerfile: '' @ message e)) (throw e)))
              (ret existingDockerfilePath))))"

section \<open>Classifying manifests\<close>

fun classifyYAML :: "string list \<Rightarrow> string list \<times> string list" where
  "classifyYAML [] = ([], [])"
| "classifyYAML (file # files) =
     (let (serviceYAMLs, deploymentYAMLs) = classifyYAML files in
      if endsWith file ''service.yaml'' then (file # serviceYAMLs, deploymentYAMLs)
      else if endsWith file ''deployment.yaml'' then (serviceYAMLs, file # deploymentYAMLs)
      else (serviceYAMLs, deploymentYAMLs))"

definition scanYAMLFiles :: "string \<Rightarrow> (string list \<times> string list) io" where
  "scanYAMLFiles directory =
     (if directory = [] then throw (Error (''Invalid directory path: '' @ directory))
      else bind (scanEntireDirectory directory) (\<lambda>allFiles. ret (classifyYAML allFiles)))"

section \<open>Running the image\<close>

text \<open>
  \<^verbatim>\<open>exec(command, callback)\<close> that is not awaited: the command is started and the caller
  goes on; the callback runs in a later turn of the event loop (\<open>completion\<close>).
\<close>

definition startCommand :: "string \<Rightarrow> unit io" where
  "startCommand command =
     (\<lambda>w. (Inr (), w\<lparr>trace := trace w @ [Exec command],
                      started := Suc (started w),
                      pending := pending w @ [(started w, command)]\<rparr>))"

text \<open>The error object that \<^verbatim>\<open>exec\<close> gives its callback when a command fails.\<close>

definition commandFailed :: "string \<Rightarrow> proc_result \<Rightarrow> error" where
  "commandFailed command r = Error (''Command failed: '' @ command @ [CHR 0x0A] @ err r)"

text \<open>The command line of \<^verbatim>\<open>deployDocker\<close>; a missing or empty \<open>remote\<close> is falsy.\<close>

definition dockerRun :: "string \<Rightarrow> string \<Rightarrow> string" where
  "dockerRun projectName imageTag = ''docker run -d -p 8000:8000 '' @ projectName @ '':'' @ imageTag"

definition deployCommand :: "string \<Rightarrow> string \<Rightarrow> string option \<Rightarrow> string option \<Rightarrow> string" where
  "deployCommand projectName imageTag remote user =
     (case remote of
        Some host \<Rightarrow>
          if host \<noteq> [] then
            ''ssh '' @ (case user of None \<Rightarrow> ''null'' | Some u \<Rightarrow> u) @ ''@'' @ host
            @ '' '' @ [CHR 0x22] @ dockerRun projectName imageTag @ [CHR 0x22]
          else dockerRun projectName imageTag
      | None \<Rightarrow> dockerRun projectName imageTag)"

definition deployDocker ::
  "string \<Rightarrow> string \<Rightarrow> string \<Rightarrow> string option \<Rightarrow> string option \<Rightarrow> string option \<Rightarrow> unit io" where
  "deployDocker projectPath projectName imageTag remote user password =
     catch
       (let command = deployCommand projectName imageTag remote user
        in seq (log (''Deploying with command: '' @ command)) (startCommand command))
       (\<lambda>e. seq (log (''Failed to deploy Docker image: '' @ message e)) (throw e))"

text \<open>
  The callback of \<^verbatim>\<open>deployDocker\<close>, run on the result of its command. Its
  \<^verbatim>\<open>throw error\<close> is inside the callback, outside every \<^verbatim>\<open>try\<close>.
\<close>

definition deployDockerCallback :: "string \<Rightarrow> proc_result \<Rightarrow> unit io" where
  "deployDockerCallback command r =
     (if exit_code r \<noteq> 0 then
        seq (log (''Error deploying Docker image: '' @ err r))
            (throw (Crash (commandFailed command r)))
      else log (''Docker image deployed successfully. Output: '' @ out r))"

text \<open>The later turn: the oldest pending command finishes and its callback runs.\<close>

definition completion :: "unit io" where
  "completion =
     (\<lambda>w. case pending w of
             [] \<Rightarrow> (Inr (), w)
           | (k, command) # rest \<Rightarrow>
               deployDockerCallback command (shell w k command) (w\<lparr>pending := rest\<rparr>))"

section \<open>The orchestrator driver\<close>

definition text_lines :: "string list \<Rightarrow> string" where
  "text_lines ls = concat (map (\<lambda>l. l @ [CHR 0x0A]) ls)"

definition processCwd :: "string io" where
  "processCwd = (\<lambda>w. (Inr (cwd w), w))"

definition deploymentYAML :: "string \<Rightarrow> string \<Rightarrow> string" where
  "deploymentYAML projectName imageTag =
     [CHR 0x0A] @ text_lines
       [''apiVersion: apps/v1'',
        ''kind: Deployment'',
        ''metadata:'',
        ''  name: '' @ projectName @ ''-deployment'',
        ''spec:'',
        ''  replicas: 1'',
        ''  selector:'',
        ''    matchLabels:'',
        ''      app: '' @ projectName,
        ''  template:'',
        ''    metadata:'',
        ''      labels:'',
        ''        app: '' @ projectName,
        ''    spec:'',
        ''      containers:'',
        ''      - name: '' @ projectName,
        ''        image: '' @ projectName @ '':'' @ imageTag,
        ''        ports:'',
        ''        - containerPort: 80'']"

definition serviceYAML :: "string \<Rightarrow> string" where
  "serviceYAML projectName =
     [CHR 0x0A] @ text_lines
       [''apiVersion: v1'',
        ''kind: Service'',
        ''metadata:'',
        ''  name: '' @ projectName @ ''-service'',
        ''spec:'',
        ''  selector:'',
        ''    app: '' @ projectName,
        ''  type: NodePort'',
        ''  ports:'',
        ''  - protocol: TCP'',
        ''    port: 80'',
        ''    targetPort: 80'']"

definition generateKubernetesYAML :: "string \<Rightarrow> string \<Rightarrow> unit io" where
  "generateKubernetesYAML projectName imageTag =
     bind processCwd (\<lambda>dir.
     seq (writeFile (path_join dir (projectName @ ''-deployment.yaml''))
                    (trim (deploymentYAML projectName imageTag)))
    (seq (writeFile (path_join dir (projectName @ ''-service.yaml''))
                    (trim (serviceYAML projectName)))
         (log ''Generated Kubernetes YAML files for Deployment and Service.'')))"

text \<open>The loop of \<^verbatim>\<open>updateWebDeploymentImage\<close> over the containers.\<close>

fun updateContainers :: "jsval list \<Rightarrow> string \<Rightarrow> jsval list io" where
  "updateContainers [] newImage = ret []"
| "updateContainers (container # containers) newImage =
     bind (of_result (getProp container ''image'')) (\<lambda>oldImage.
     bind (of_result (setProp container ''image'' (JStr newImage))) (\<lambda>c1.
     bind (of_result (setProp c1 ''imagePullPolicy'' (JStr ''IfNotPresent''))) (\<lambda>c2.
     seq (log (''Updated image from '' @ toString oldImage @ '' to '' @ newImage
               @ '' in web-deployment.yaml''))
    (bind (updateContainers containers newImage) (\<lambda>rest.
     ret (c2 # rest))))))"

text \<open>
  The containers after the loop, as the document holds them: the elements of an array
  were changed in place; a string has no elements to change.
\<close>

fun updated :: "jsval \<Rightarrow> jsval list \<Rightarrow> jsval" where
  "updated (JArr xs) ys = JArr ys"
| "updated v ys = v"

definition containersPath :: "string list" where
  "containersPath = [''spec'', ''template'', ''spec'', ''containers'']"

definition updateWebDeploymentImage :: "lib \<Rightarrow> string \<Rightarrow> string \<Rightarrow> string \<Rightarrow> unit io" where
  "updateWebDeploymentImage L projectPath projectName imageTag =
     (let webDeploymentPath = path_join projectPath ''web-deployment.yaml'' in
      catch
        (bind (readFile webDeploymentPath) (\<lambda>fileContents.
         bind (of_result (yaml_load L fileContents)) (\<lambda>deploymentYaml.
         bind (of_result (getProp deploymentYaml ''spec'')) (\<lambda>spec1.
         bind (of_result (getProp spec1 ''template'')) (\<lambda>template.
         bind (of_result (getProp template ''spec'')) (\<lambda>spec2.
         bind (of_result (getProp spec2 ''containers'')) (\<lambda>containers.
         bind (of_result (iterate containers)) (\<lambda>elements.
         bind (updateContainers elements (projectName @ '':'' @ imageTag)) (\<lambda>elements'.
         seq (writeFile webDeploymentPath
                (yaml_dump L (assignPath deploymentYaml containersPath
                                (updated containers elements'))))
             (log (''Updated web-deployment.yaml with new image: '' @ projectName
                   @ '':'' @ imageTag)))))))))))
        (\<lambda>e. seq (log (''Error updating web-deployment.yaml: '' @ message e)) (throw e)))"

subsection \<open>Waiting for the pods\<close>

text \<open>
  One sample of \<^verbatim>\<open>kubectl get pods\<close>: the rows are the lines after the first that are
  not blank. The loop over the rows stops at the first row whose third column is not
  \<^verbatim>\<open>Running\<close> and yields that row's name and status.
\<close>

definition podRows :: "string \<Rightarrow> string list" where
  "podRows podsOutput = filter (\<lambda>line. trim line \<noteq> []) (drop 1 (splitOn (CHR 0x0A) podsOutput))"

definition podStatus :: "string \<Rightarrow> string option" where
  "podStatus line = at_index (splitWs line) 2"

definition podName :: "string \<Rightarrow> string option" where
  "podName line = at_index (splitWs line) 0"

fun firstNotRunning :: "string list \<Rightarrow> (string option \<times> string option) option" where
  "firstNotRunning [] = None"
| "firstNotRunning (line # lines) =
     (if podStatus line \<noteq> Some ''Running'' then Some (podName line, podStatus line)
      else firstNotRunning lines)"

definition shown :: "string option \<Rightarrow> string" where
  "shown v = (case v of None \<Rightarrow> ''undefined'' | Some s \<Rightarrow> s)"

definition sleep :: "nat \<Rightarrow> unit io" where
  "sleep ms = (\<lambda>w. (Inr (), w\<lparr>clock := clock w + ms\<rparr>))"

definition ReadinessTimeout :: error where
  "ReadinessTimeout = Error ''Timeout waiting for pods to become ready.''"

text \<open>
  The \<^verbatim>\<open>while\<close> loop of \<^verbatim>\<open>waitForPodsReady\<close>; \<open>timeout\<close> is in seconds, the clock in
  milliseconds.
\<close>

function pollPods :: "string \<Rightarrow> nat \<Rightarrow> nat \<Rightarrow> unit io" where
  "pollPods namespace timeout startTime w =
     (if clock w - startTime < timeout * 1000 then
        (case exec (''kubectl get pods -n '' @ namespace) w of
           (Inl e, w1) \<Rightarrow> (Inl e, w1)
         | (Inr r, w1) \<Rightarrow>
             if exit_code r \<noteq> 0 then
               (seq (spinner ''fail'' ''Error while checking pod status.'')
               (seq (log (''Error while waiting for pods: '' @ err r))
                    (throw (Error (err r))))) w1
             else
               (case firstNotRunning (podRows (out r)) of
                  None \<Rightarrow> spinner ''succeed'' ''All pods are running.'' w1
                | Some (name, status) \<Rightarrow>
                    (case seq (spinner ''text'' (''Waiting for pod '' @ shown name
                                 @ '' to be running (current status: '' @ shown status @ '')...''))
                              (sleep 5000) w1 of
                       (Inl e, w2) \<Rightarrow> (Inl e, w2)
                     | (Inr u, w2) \<Rightarrow> pollPods namespace timeout startTime w2)))
      else
        (seq (spinner ''fail'' (''Pods did not become ready within '' @ show_nat timeout @ '' seconds.''))
             (throw ReadinessTimeout)) w)"
  by pat_completeness auto
termination
  by (relation "measure (\<lambda>(namespace, timeout, startTime, w). startTime + timeout * 1000 - clock w)")
     (auto simp: exec_def seq_def bind_def spinner_def emit_def sleep_def Let_def
           split: prod.splits sum.splits)

declare pollPods.simps [simp del]

definition waitForPodsReady :: "string \<Rightarrow> nat \<Rightarrow> unit io" where
  "waitForPodsReady namespace timeout =
     seq (spinner ''start'' ''Waiting for pods to become ready...'')
         (\<lambda>w. pollPods namespace timeout (clock w) w)"

subsection \<open>Applying the manifests\<close>

text \<open>
  \<^verbatim>\<open>path.resolve(p)\<close>: the path, after the working directory when it is relative,
  normalised, without a trailing separator.
\<close>

definition path_resolve :: "string \<Rightarrow> string io" where
  "path_resolve p =
     (\<lambda>w. let own = (p \<noteq> [] \<and> hd p = CHR ''/'');
               resolvedAbsolute = (own \<or> (cwd w \<noteq> [] \<and> hd (cwd w) = CHR ''/''));
               resolvedPath = (if own \<or> cwd w = [] then [] else cwd w @ ''/'')
                              @ (if p = [] then [] else p @ ''/'');
               n = normalizeString resolvedPath (\<not> resolvedAbsolute)
           in (Inr (if resolvedAbsolute then ''/'' @ n else if n \<noteq> [] then n else ''.''), w))"

fun applyYAMLs :: "string \<Rightarrow> string \<Rightarrow> string list \<Rightarrow> unit io" where
  "applyYAMLs Kind kind [] = ret ()"
| "applyYAMLs Kind kind (yamlFile # rest) =
     (if yamlFile = [] then
        seq (log (Kind @ '' YAML is undefined or empty. Skipping...''))
            (applyYAMLs Kind kind rest)
      else
        bind (path_resolve yamlFile) (\<lambda>filePath.
        seq (log (''Applying '' @ kind @ '' YAML: '' @ filePath))
       (bind (pathExists filePath) (\<lambda>fileExists.
          if \<not> fileExists then
            seq (log (Kind @ '' YAML file does not exist: '' @ filePath))
                (applyYAMLs Kind kind rest)
          else
            seq (spinner ''text'' (''Applying '' @ kind @ '' YAML: '' @ filePath))
           (bind (exec (''kubectl apply -f '' @ [CHR 0x22] @ filePath @ [CHR 0x22])) (\<lambda>r.
              if exit_code r \<noteq> 0 then
                seq (log (''Error applying '' @ kind @ '' YAML file '' @ filePath @ '': '' @ err r))
               (seq (spinner ''fail'' (''Failed to apply '' @ kind @ '': '' @ err r))
                    (throw (commandFailed (''kubectl apply -f '' @ [CHR 0x22] @ filePath @ [CHR 0x22]) r)))
              else
                seq (log (Kind @ '' YAML applied successfully: '' @ filePath))
               (seq (log (Kind @ '' applied: '' @ out r))
               (seq (spinner ''succeed'' (Kind @ '' applied: '' @ filePath))
                    (applyYAMLs Kind kind rest)))))))))"

text \<open>
  The part of \<^verbatim>\<open>deployKubernetes\<close> from the test of the two lists to the end of
  the two apply loops.
\<close>

definition deployManifests :: "string \<Rightarrow> string list \<times> string list \<Rightarrow> unit io" where
  "deployManifests projectName found =
     (case found of (serviceYAMLs, deploymentYAMLs) \<Rightarrow>
        bind (if serviceYAMLs = [] \<and> deploymentYAMLs = [] then
                seq (log ''No Kubernetes YAML files found. Generating default YAML files...'')
               (seq (generateKubernetesYAML projectName ''latest'')
               (bind processCwd (\<lambda>dir.
                ret (serviceYAMLs @ [path_join dir (projectName @ ''-service.yaml'')],
                     deploymentYAMLs @ [path_join dir (projectName @ ''-deployment.yaml'')]))))
              else ret (serviceYAMLs, deploymentYAMLs))
          (\<lambda>(serviceYAMLs, deploymentYAMLs).
             seq (applyYAMLs ''Deployment'' ''deployment'' deploymentYAMLs)
                 (applyYAMLs ''Service'' ''service'' serviceYAMLs)))"

subsection \<open>Reporting\<close>

fun warnNotRunning :: "string list \<Rightarrow> bool \<Rightarrow> bool io" where
  "warnNotRunning [] allPodsRunning = ret allPodsRunning"
| "warnNotRunning (line # lines) allPodsRunning =
     (if podStatus line \<noteq> Some ''Running'' then
        seq (emit (Console (''Pod '' @ shown (podName line) @ '' is in status '' @ shown (podStatus line))))
       (seq (log (''Pod '' @ shown (podName line) @ '' is in status '' @ shown (podStatus line)))
            (warnNotRunning lines False))
      else warnNotRunning lines allPodsRunning)"

definition reportPods :: "unit io" where
  "reportPods =
     bind (exec ''kubectl get pods'') (\<lambda>r.
       if exit_code r \<noteq> 0 then
         seq (log (''Error getting pods: '' @ err r))
        (seq (emit (Console ''Error getting pods status.''))
             (throw (commandFailed ''kubectl get pods'' r)))
       else
         seq (log (''Pods status:'' @ [CHR 0x0A] @ out r))
        (seq (emit (Console ''Pods status:''))
        (seq (emit (Console (out r)))
        (bind (warnNotRunning (podRows (out r)) True) (\<lambda>allPodsRunning.
           if \<not> allPodsRunning then emit (Console ''Warning: Not all pods are running.'')
           else ret ())))))"

definition isDigit :: "char \<Rightarrow> bool" where
  "isDigit c = (c \<in> set ''0123456789'')"

text \<open>\<^verbatim>\<open>portInfo.match(/:(\d+)\//)\<close>: the digits of the first colon, digits, slash.\<close>

fun matchPort :: "string \<Rightarrow> string option" where
  "matchPort [] = None"
| "matchPort (c # cs) =
     (if c = CHR '':'' \<and> takeWhile isDigit cs \<noteq> []
         \<and> take 1 (dropWhile isDigit cs) = ''/''
      then Some (takeWhile isDigit cs)
      else matchPort cs)"

text \<open>
  The loop over the service rows. A matching row without a fifth column makes
  \<^verbatim>\<open>portInfo.match\<close> throw inside the callback of \<^verbatim>\<open>exec\<close>.
\<close>

fun findServicePort :: "string \<Rightarrow> string list \<Rightarrow> string option \<Rightarrow> error + string option" where
  "findServicePort projectName [] servicePort = Inr servicePort"
| "findServicePort projectName (line # lines) servicePort =
     (if podName line = Some (projectName @ ''-service'') \<or> podName line = Some ''web-service'' then
        (case at_index (splitWs line) 4 of
           None \<Rightarrow> Inl (Crash (TypeError (''Cannot read properties of undefined (reading ''
                                           @ [CHR 0x27] @ ''match'' @ [CHR 0x27] @ '')'')))
         | Some portInfo \<Rightarrow>
             (case matchPort portInfo of
                None \<Rightarrow> findServicePort projectName lines servicePort
              | Some port \<Rightarrow> findServicePort projectName lines (Some port)))
      else findServicePort projectName lines servicePort)"

definition reportServices :: "string \<Rightarrow> unit io" where
  "reportServices projectName =
     bind (exec ''kubectl get services'') (\<lambda>r.
       if exit_code r \<noteq> 0 then
         seq (log (''Error getting services: '' @ err r))
        (seq (emit (Console ''Error getting services status.''))
             (throw (commandFailed ''kubectl get services'' r)))
       else
         seq (log (''Services status:'' @ [CHR 0x0A] @ out r))
        (seq (emit (Console ''Services status:''))
        (seq (emit (Console (out r)))
        (bind (of_result (findServicePort projectName (podRows (out r)) None)) (\<lambda>servicePort.
           case servicePort of
             Some port \<Rightarrow>
               seq (log (''Service is exposed on port: '' @ port))
                   (emit (Console (''Your application is available at http://localhost:'' @ port)))
           | None \<Rightarrow>
               seq (log ''Could not determine the service port.'')
                   (emit (Console ''Could not determine the service port.'')))))))"

subsection \<open>The driver\<close>

text \<open>\<^verbatim>\<open>err.stack\<close> starts with the error's name and message; the frames are left out.\<close>

definition stack :: "error \<Rightarrow> string" where
  "stack e = ''Error: '' @ message e"

text \<open>What \<^verbatim>\<open>deployKubernetes\<close> does with the two lists that the scan has found.\<close>

definition deployFound :: "lib \<Rightarrow> string \<Rightarrow> string list \<times> string list \<Rightarrow> unit io" where
  "deployFound L projectName found =
     (case found of (serviceYAMLs, deploymentYAMLs) \<Rightarrow>
        seq (log (''Service YAMLs found: '' @ JSON_stringify L (JArr (map JStr serviceYAMLs))))
       (seq (log (''Deployment YAMLs found: '' @ JSON_stringify L (JArr (map JStr deploymentYAMLs))))
       (seq (deployManifests projectName (serviceYAMLs, deploymentYAMLs))
       (seq (waitForPodsReady ''default'' 300)
       (seq (log ''Checking the status of pods and services...'')
       (seq reportPods
            (reportServices projectName)))))))"

definition deployKubernetes :: "lib \<Rightarrow> string \<Rightarrow> string \<Rightarrow> unit io" where
  "deployKubernetes L projectName projectPath =
     seq (spinner ''start'' ''Deploying to Kubernetes...'')
       (catch
          (if projectPath = [] then throw (Error ''projectPath is undefined or invalid.'')
           else
             seq (updateWebDeploymentImage L projectPath projectName ''latest'')
            (seq (log (''Starting deployment to Kubernetes for project: '' @ projectName
                       @ '' at path: '' @ projectPath))
            (bind (scanYAMLFiles projectPath) (deployFound L projectName))))
          (\<lambda>e. seq (log (''Failed to deploy on Kubernetes: '' @ stack e)) (throw e)))"

section \<open>Scanning a project\<close>

text \<open>The loop of \<^verbatim>\<open>scanProject\<close> over the files, with its two flags.\<close>

fun classifyFiles :: "string list \<Rightarrow> bool \<times> bool \<Rightarrow> (bool \<times> bool) io" where
  "classifyFiles [] flags = ret flags"
| "classifyFiles (file # files) (dockerFileFound, packageJsonFound) =
     (if endsWith (toLowerCase file) ''dockerfile'' then
        seq (emit (Console ([CHR 0xE2, CHR 0x9C, CHR 0x94] @ '' Found Dockerfile: '' @ file)))
       (seq (log (''Found Dockerfile: '' @ file))
            (classifyFiles files (True, packageJsonFound)))
      else if endsWith file ''package.json'' then
        seq (emit (Console ([CHR 0xE2, CHR 0x9C, CHR 0x94] @ '' Found package.json: '' @ file)))
       (seq (log (''Found package.json: '' @ file))
            (classifyFiles files (dockerFileFound, True)))
      else
        seq (emit (Console (''Found file: '' @ file)))
       (seq (log (''Found file: '' @ file))
            (classifyFiles files (dockerFileFound, packageJsonFound))))"

definition scanProject :: "lib \<Rightarrow> string \<Rightarrow> string \<Rightarrow> string \<Rightarrow> unit io" where
  "scanProject L projectPath projectName imageTag =
     seq (log (''Received projectName: '' @ projectName @ '', imageTag: '' @ imageTag))
    (seq (spinner ''start'' ''Starting the project scan...'')
       (catch
          (seq (log (''Scanning directory: '' @ projectPath))
          (bind (stat projectPath) (\<lambda>stats.
             if \<not> isDirectory stats then
               seq (spinner ''fail'' (''Error: '' @ projectPath @ '' is not a directory''))
                   (log (''Provided path is not a directory: '' @ projectPath))
             else
               bind (scanEntireDirectory projectPath) (\<lambda>allFiles.
               bind (classifyFiles allFiles (False, False)) (\<lambda>(dockerFileFound, packageJsonFound).
               seq (spinner ''text'' (''Scanning project at '' @ projectPath @ ''...''))
              (seq (if packageJsonFound then
                      seq (log ''Node.js project detected.'')
                     (seq (spinner ''succeed'' ''Detected a Node.js project'')
                     (seq (if \<not> dockerFileFound then
                             seq (spinner ''start'' ''Generating Dockerfile for Node.js project...'')
                            (bind (generateDockerfile L ''nodejs'' projectPath) (\<lambda>generated.
                             spinner ''succeed'' ''Dockerfile generated for Node.js project.''))
                           else spinner ''succeed'' ''Using existing Dockerfile.'')
                     (seq (spinner ''start'' ''Building Docker image...'')
                     (seq (buildDockerImage projectPath projectName imageTag)
                          (spinner ''succeed'' (''Docker image '' @ [CHR 0x27] @ projectName @ '':''
                                               @ imageTag @ [CHR 0x27] @ '' built successfully.''))))))
                    else
                      seq (spinner ''fail'' ''Unable to determine the project type'')
                          (log ''Failed to determine project type. No known configuration files found.''))
                   (spinner ''succeed'' ''Project scan and Docker image creation completed.'')))))))
          (\<lambda>e. seq (log (''Error scanning project or building Docker image: '' @ message e))
               (seq (spinner ''fail'' ''Error scanning project or building Docker image'')
                    (throw e)))))"

section \<open>Reading a run\<close>

text \<open>
  The regular files under a directory, in the order of the depth-first walk that
  \<^verbatim>\<open>scanEntireDirectory\<close> and \<^verbatim>\<open>findFileRecursively\<close> make: each with the path
  of the directory that lists it.
\<close>

fun walk :: "string \<Rightarrow> (string \<times> node) list \<Rightarrow> (string \<times> string) list" where
  "walk directory [] = []"
| "walk directory ((file, Dir sub) # files) =
     walk (path_join directory file) sub @ walk directory files"
| "walk directory ((file, File content) # files) =
     (directory, file) # walk directory files"

definition named :: "string \<Rightarrow> string \<times> string \<Rightarrow> bool" where
  "named fileName e = (toLowerCase (snd e) = toLowerCase fileName)"

text \<open>The commands of a trace, and its writes, in order.\<close>

fun commands :: "event list \<Rightarrow> string list" where
  "commands [] = []"
| "commands (Exec c # es) = c # commands es"
| "commands (e # es) = commands es"

fun writes :: "event list \<Rightarrow> (string \<times> string) list" where
  "writes [] = []"
| "writes (Write p c # es) = (p, c) # writes es"
| "writes (e # es) = writes es"


subsection \<open>Worlds to run on\<close>

definition quiet :: "nat \<Rightarrow> string \<Rightarrow> proc_result" where
  "quiet k c = \<lparr>exit_code = 0, out = [], err = [], duration = 0\<rparr>"

definition failing :: "nat \<Rightarrow> string \<Rightarrow> proc_result" where
  "failing k c = \<lparr>exit_code = 1, out = [], err = ''no such image'', duration = 0\<rparr>"

definition world_of :: "node \<Rightarrow> (nat \<Rightarrow> string \<Rightarrow> proc_result) \<Rightarrow> world" where
  "world_of root sh =
     \<lparr>fs = root, cwd = ''/work'', moddir = ''/opt/dockerizer/src'', trace = [], clock = 0,
      started = 0, pending = [], shell = sh\<rparr>"



subsection \<open>Reading paths and texts\<close>

text \<open>
  A plain name is what a directory can list: not empty, not a dot name, without a
  separator. \<open>atMostOnce s pat\<close> says that \<open>pat\<close> does not occur in \<open>s\<close> again after its
  first occurrence (\<open>afterFirst\<close> is the text behind the first character of that
  occurrence).
\<close>

definition plainName :: "string \<Rightarrow> bool" where
  "plainName n = (n \<noteq> [] \<and> n \<noteq> ''.'' \<and> n \<noteq> ''..'' \<and> CHR ''/'' \<notin> set n)"

fun afterFirst :: "string \<Rightarrow> string \<Rightarrow> string option" where
  "afterFirst [] pat = None"
| "afterFirst (c # cs) pat = (if prefix pat (c # cs) then Some cs else afterFirst cs pat)"

definition atMostOnce :: "string \<Rightarrow> string \<Rightarrow> bool" where
  "atMostOnce s pat = (case afterFirst s pat of None \<Rightarrow> True | Some rest \<Rightarrow> \<not> includes_str rest pat)"

subsection \<open>Reading the readiness poll\<close>

text \<open>
  \<open>podSample w namespace k\<close> is the answer to the \<open>k\<close>-th status query of a poll that
  starts in \<open>w\<close>; \<open>sampleTime s k\<close> is the time from the start of the poll to the moment
  the loop asks for sample \<open>k\<close> (each round lasts as long as its query and then sleeps
  five seconds); \<open>allRunning\<close> says that every row of a sample has status
  \<^verbatim>\<open>Running\<close>.
\<close>

definition podSample :: "world \<Rightarrow> string \<Rightarrow> nat \<Rightarrow> proc_result" where
  "podSample w namespace k = shell w (started w + k) (''kubectl get pods -n '' @ namespace)"

fun sampleTime :: "(nat \<Rightarrow> proc_result) \<Rightarrow> nat \<Rightarrow> nat" where
  "sampleTime s 0 = 0"
| "sampleTime s (Suc k) = sampleTime s k + duration (s k) + 5000"

definition allRunning :: "proc_result \<Rightarrow> bool" where
  "allRunning r = list_all (\<lambda>line. podStatus line = Some ''Running'') (podRows (out r))"

subsection \<open>What a call leaves unchanged\<close>

text \<open>
  \<open>keeps obs P m\<close>: from a world whose observation satisfies \<open>P\<close>, running \<open>m\<close> leaves
  the observation as it was. \<open>files_of\<close> observes the files and what was written.
\<close>

definition keeps :: "(world \<Rightarrow> 'o) \<Rightarrow> ('o \<Rightarrow> bool) \<Rightarrow> 'a io \<Rightarrow> bool" where
  "keeps obs P m = (\<forall>w. P (obs w) \<longrightarrow> obs (snd (m w)) = obs w)"

definition files_of :: "world \<Rightarrow> node \<times> string \<times> (string \<times> string) list" where
  "files_of w = (fs w, cwd w, writes (trace w))"

text \<open>
  \<open>steps Q m\<close>: running \<open>m\<close> only adds events to the trace, and each added event
  satisfies \<open>Q\<close>.
\<close>

definition steps :: "(event \<Rightarrow> bool) \<Rightarrow> 'a io \<Rightarrow> bool" where
  "steps Q m = (\<forall>w. \<exists>evs. trace (snd (m w)) = trace w @ evs \<and> list_all Q evs)"

text \<open>The line the driver logs before it writes default manifests (line 421).\<close>

definition fabricating :: event where
  "fabricating = Log ''No Kubernetes YAML files found. Generating default YAML files...''"

text \<open>An absolute path starts at the root.\<close>

definition absolute :: "string \<Rightarrow> bool" where
  "absolute p = (p \<noteq> [] \<and> hd p = CHR ''/'')"

text \<open>The segments that \<^verbatim>\<open>path.join\<close> keeps of its first argument.\<close>

definition kept :: "string \<Rightarrow> string list" where
  "kept d = normalizeSegs (\<not> absolute d) [] (splitOn CHR ''/'' d)"

subsection \<open>More worlds to run on\<close>

text \<open>
  Libraries that reject every input, for runs that never parse; trees with a plain
  file, with a project of no known type, and with a project that has a build file.
\<close>

definition no_lib :: lib where
  "no_lib = \<lparr>JSON_parse = (\<lambda>s. Inl (SyntaxError ''Unexpected token'')),
             JSON_stringify = (\<lambda>v. []),
             yaml_load = (\<lambda>s. Inl (YAMLException ''bad indentation'')),
             yaml_dump = (\<lambda>v. [])\<rparr>"

definition file_tree :: node where
  "file_tree = Dir [(''notes.txt'', File ''hello'')]"


definition built_tree :: node where
  "built_tree = Dir [(''proj'', Dir [(''package.json'', File ''{}''), (''Dockerfile'', File ''FROM node:20'')])]"

text \<open>
  Outputs of \<^verbatim>\<open>kubectl get pods\<close>, and two clusters: one whose pods are all running
  from the second query on, one where a pod stays pending.
\<close>

definition pods_header :: string where
  "pods_header = ''NAME    READY   STATUS    RESTARTS   AGE''"

definition pods_mixed :: string where
  "pods_mixed = text_lines [pods_header, ''web-1   1/1     Running   0          5m'',
                            ''web-2   0/1     Pending   0          5m'']"

definition pods_ready :: string where
  "pods_ready = text_lines [pods_header, ''web-1   1/1     Running   0          5m'',
                            ''web-2   1/1     Running   0          5m'']"

definition ready_on_second :: "nat \<Rightarrow> string \<Rightarrow> proc_result" where
  "ready_on_second k c =
     \<lparr>exit_code = 0, out = (if k = 0 then pods_mixed else pods_ready), err = [], duration = 0\<rparr>"

definition never_ready :: "nat \<Rightarrow> string \<Rightarrow> proc_result" where
  "never_ready k c = \<lparr>exit_code = 0, out = pods_mixed, err = [], duration = 0\<rparr>"

text \<open>
  A Node.js template and a project that depends on express and listens on port 8000,
  with the parser result that belongs to its \<^verbatim>\<open>package.json\<close>.
\<close>

definition sample_template :: string where
  \<open>sample_template =
     text_lines [''FROM node:18'', ''WORKDIR /app'', ''COPY . .'', ''RUN npm install'',
                 ''EXPOSE 3000'', ''CMD ["npm", "start"]'']\<close>

definition express_entries :: "(string \<times> node) list" where
  \<open>express_entries =
     [(''package.json'', File ''{"dependencies":{"express":"4.x"}}''),
      (''index.js'', File ''app.listen(8000)'')]\<close>

definition express_tree :: node where
  "express_tree =
     Dir [(''opt'', Dir [(''dockerizer'',
             Dir [(''src'', Dir []),
                  (''templates'', Dir [(''nodejs.Dockerfile'', File sample_template)])])]),
          (''proj'', Dir express_entries)]"

definition express_lib :: lib where
  "express_lib =
     \<lparr>JSON_parse = (\<lambda>s. Inr (JObj [(''dependencies'', JObj [(''express'', JStr ''4.x'')])])),
      JSON_stringify = (\<lambda>v. []),
      yaml_load = (\<lambda>s. Inl (YAMLException ''bad indentation'')),
      yaml_dump = (\<lambda>v. [])\<rparr>"

subsection \<open>Reading a manifest\<close>

text \<open>
  \<open>isMapping\<close>: the value is an object. \<open>retag\<close>: what the loop body of
  \<^verbatim>\<open>updateWebDeploymentImage\<close> (lines 328-331) does to a container that is an object.
  \<open>containersOf\<close>: the value of \<^verbatim>\<open>spec.template.spec.containers\<close>.
\<close>

fun isMapping :: "jsval \<Rightarrow> bool" where
  "isMapping (JObj kvs) = True"
| "isMapping v = False"

fun retag :: "string \<Rightarrow> jsval \<Rightarrow> jsval" where
  "retag newImage (JObj kvs) =
     JObj (AList.update ''imagePullPolicy'' (JStr ''IfNotPresent'')
            (AList.update ''image'' (JStr newImage) kvs))"
| "retag newImage v = v"

text \<open>
  A deployment document with two containers, libraries that load it from any text and
  dump the list of image references, and a tree with the two \<^verbatim>\<open>web\<close> manifests and an
  empty working directory.
\<close>

definition web_doc :: jsval where
  "web_doc =
     JObj [(''kind'', JStr ''Deployment''),
           (''spec'', JObj [(''replicas'', JNum 1),
              (''template'', JObj [(''spec'', JObj [(''containers'',
                 JArr [JObj [(''name'', JStr ''web''), (''image'', JStr ''web:v1'')],
                       JObj [(''name'', JStr ''sidecar''), (''image'', JStr ''envoy:1.0''),
                             (''imagePullPolicy'', JStr ''Always'')]])])])])]"

definition k8s_lib :: lib where
  "k8s_lib =
     \<lparr>JSON_parse = (\<lambda>s. Inl (SyntaxError ''Unexpected token'')),
      JSON_stringify = (\<lambda>v. []),
      yaml_load = (\<lambda>s. Inr web_doc),
      yaml_dump = (\<lambda>v. ''images: '' @ toString (JArr
                     (case getProp v ''spec'' of Inr a \<Rightarrow>
                        (case getProp a ''template'' of Inr b \<Rightarrow>
                           (case getProp b ''spec'' of Inr c \<Rightarrow>
                              (case getProp c ''containers'' of Inr (JArr cs) \<Rightarrow>
                                 map (\<lambda>x. case getProp x ''image'' of Inr i \<Rightarrow> i | Inl e \<Rightarrow> JNull) cs
                               | _ \<Rightarrow> [])
                            | _ \<Rightarrow> [])
                         | _ \<Rightarrow> [])
                      | _ \<Rightarrow> [])))\<rparr>"

definition k8s_tree :: node where
  "k8s_tree =
     Dir [(''proj'', Dir [(''web-deployment.yaml'', File ''kind: Deployment''),
                          (''web-service.yaml'', File ''kind: Service'')]),
          (''work'', Dir [])]"

text \<open>A project without any manifest, beside an empty working directory.\<close>

definition bare_tree :: node where
  "bare_tree = Dir [(''proj'', Dir [(''README.md'', File ''demo'')]), (''work'', Dir [])]"

definition containersOf :: "jsval \<Rightarrow> error + jsval" where
  "containersOf deploymentYaml =
     (case getProp deploymentYaml ''spec'' of
        Inl e \<Rightarrow> Inl e
      | Inr spec1 \<Rightarrow>
          (case getProp spec1 ''template'' of
             Inl e \<Rightarrow> Inl e
           | Inr template \<Rightarrow>
               (case getProp template ''spec'' of
                  Inl e \<Rightarrow> Inl e
                | Inr spec2 \<Rightarrow> getProp spec2 ''containers'')))"

section \<open>Properties\<close>

subsection \<open>Reading the model\<close>

lemmas io_defs = bind_def seq_def catch_def ret_def throw_def emit_def log_def spinner_def of_result_def

lemma resolve_upd [simp]:
  "resolve (w\<lparr>trace := t\<rparr>) p = resolve w p"
  "resolve (w\<lparr>clock := c\<rparr>) p = resolve w p"
  "resolve (w\<lparr>started := k\<rparr>) p = resolve w p"
  "resolve (w\<lparr>pending := q\<rparr>) p = resolve w p"
  by (simp_all add: resolve_def split: sum.splits)

lemma failure_upd [simp]:
  "failure (w\<lparr>trace := t\<rparr>) p = failure w p"
  "failure (w\<lparr>clock := c\<rparr>) p = failure w p"
  "failure (w\<lparr>started := k\<rparr>) p = failure w p"
  "failure (w\<lparr>pending := q\<rparr>) p = failure w p"
  by (simp_all add: failure_def)

lemma commands_append [simp]: "commands (xs @ ys) = commands xs @ commands ys"
  by (induction xs rule: commands.induct) simp_all

lemma writes_append [simp]: "writes (xs @ ys) = writes xs @ writes ys"
  by (induction xs rule: writes.induct) simp_all




subsection \<open>Paths and the kernel\<close>

lemma splitOn_not_Nil [simp]: "splitOn sep s \<noteq> []"
  by (induction s) (auto split: list.splits)

lemma splitOn_plain: "sep \<notin> set n \<Longrightarrow> splitOn sep n = [n]"
  by (induction n) auto

lemma splitOn_join: "sep \<notin> set n \<Longrightarrow> splitOn sep (a @ sep # n) = splitOn sep a @ [n]"
  by (induction a) (auto simp: splitOn_plain split: list.splits)

lemma splitOn_free: "s \<in> set (splitOn sep p) \<Longrightarrow> sep \<notin> set s"
  by (induction p arbitrary: s) (auto split: if_splits list.splits)

lemma joinSegs_snoc: "joinSegs (ns @ [f]) = (if ns = [] then f else joinSegs ns @ ''/'' @ f)"
  by (induction ns rule: joinSegs.induct) simp_all

lemma splitOn_joinSegs:
  "segs \<noteq> [] \<Longrightarrow> \<forall>s \<in> set segs. CHR ''/'' \<notin> set s \<Longrightarrow> splitOn CHR ''/'' (joinSegs segs) = segs"
proof (induction segs rule: joinSegs.induct)
  case 1 then show ?case by simp
next
  case (2 s) then show ?case by (simp add: splitOn_plain)
next
  case (3 s t ss)
  have "splitOn CHR ''/'' (s @ CHR ''/'' # joinSegs (t # ss)) = s # splitOn CHR ''/'' (joinSegs (t # ss))"
    using 3(3) by (induction s) (auto split: list.splits)
  with 3 show ?case by simp
qed

lemma normalizeSegs_snoc:
  "plainName f \<Longrightarrow> normalizeSegs a res (cs @ [f]) = normalizeSegs a res cs @ [f]"
  by (induction a res cs rule: normalizeSegs.induct) (auto simp: plainName_def)

lemma namei_append:
  "namei root loc (xs @ ys) = (case namei root loc xs of Inl e \<Rightarrow> Inl e | Inr l \<Rightarrow> namei root l ys)"
  by (induction root loc xs rule: namei.induct) (auto split: option.splits node.splits)

lemma lookup_at_snoc:
  "lookup_at (cs @ [n]) root =
     (case lookup_at cs root of Some (Dir es) \<Rightarrow> map_of es n | _ \<Rightarrow> None)"
proof (induction cs arbitrary: root)
  case Nil
  show ?case by (cases root) (simp_all split: option.splits)
next
  case (Cons c cs)
  show ?case by (cases root) (simp_all add: Cons.IH split: option.splits)
qed

text \<open>A walk that succeeds ends where a walk along the normalised components ends.\<close>

lemma namei_name:
  assumes "namei root b (res @ [n]) = Inr cur" and "n \<noteq> []" "n \<noteq> ''.''" "n \<noteq> ''..''"
  shows "\<exists>l. namei root b res = Inr l \<and> cur = l @ [n]"
  using assms by (auto simp: namei_append split: sum.splits option.splits node.splits)

lemma namei_normalizeSegs:
  assumes "namei root cur cs = Inr l"
      and "namei root b res = Inr cur"
      and "\<forall>s \<in> set res. s \<noteq> [] \<and> s \<noteq> ''.''"
      and "a \<or> (b = [] \<and> ''..'' \<notin> set res)"
  shows "namei root b (normalizeSegs a res cs) = Inr l"
  using assms
proof (induction a res cs arbitrary: cur rule: normalizeSegs.induct)
  case (1 a res)
  then show ?case by simp
next
  case (2 a res c cs)
  from "2.prems"(1) obtain es where dir: "lookup_at cur root = Some (Dir es)"
    by (auto split: option.splits node.splits)
  consider (skip) "c = [] \<or> c = ''.''"
    | (pop) "c = ''..''" "res \<noteq> []" "last res \<noteq> ''..''"
    | (up) "c = ''..''" "res = [] \<or> last res = ''..''" "a"
    | (drop) "c = ''..''" "res = [] \<or> last res = ''..''" "\<not> a"
    | (name) "c \<noteq> []" "c \<noteq> ''.''" "c \<noteq> ''..''"
    by blast
  then show ?case
  proof cases
    case skip
    have step: "namei root cur cs = Inr l"
      using "2.prems"(1) dir skip by auto
    have "namei root b (normalizeSegs a res cs) = Inr l"
      using skip step "2.prems"(2,3,4) by (intro "2.IH"(1))
    with skip show ?thesis by auto
  next
    case pop
    from pop(2) have res: "res = butlast res @ [last res]" by simp
    have n: "last res \<noteq> []" "last res \<noteq> ''.''"
      using "2.prems"(3) pop(2) last_in_set by blast+
    from namei_name [of root b "butlast res" "last res" cur] "2.prems"(2) res n pop(3)
    obtain l' where l': "namei root b (butlast res) = Inr l'" "cur = l' @ [last res]" by auto
    have step: "namei root (butlast cur) cs = Inr l"
      using "2.prems"(1) dir pop(1) by simp
    have "namei root b (normalizeSegs a (butlast res) cs) = Inr l"
    proof (rule "2.IH"(2))
      show "\<not> (c = [] \<or> c = ''.'')" using pop(1) by simp
      show "c = ''..''" by fact
      show "res \<noteq> [] \<and> last res \<noteq> ''..''" using pop by simp
      show "namei root (butlast cur) cs = Inr l" by fact
      show "namei root b (butlast res) = Inr (butlast cur)" using l' by simp
      show "\<forall>s\<in>set (butlast res). s \<noteq> [] \<and> s \<noteq> ''.''"
        using "2.prems"(3) by (auto dest: in_set_butlastD)
      show "a \<or> b = [] \<and> ''..'' \<notin> set (butlast res)"
        using "2.prems"(4) by (auto dest: in_set_butlastD)
    qed
    with pop show ?thesis by auto
  next
    case up
    have step: "namei root (butlast cur) cs = Inr l"
      using "2.prems"(1) dir up(1) by simp
    have "namei root b (normalizeSegs a (res @ [''..'']) cs) = Inr l"
    proof (rule "2.IH"(3))
      show "\<not> (c = [] \<or> c = ''.'')" using up(1) by simp
      show "c = ''..''" by fact
      show "\<not> (res \<noteq> [] \<and> last res \<noteq> ''..'')" using up(2) by simp
      show "a" by fact
      show "namei root (butlast cur) cs = Inr l" by fact
      show "namei root b (res @ [''..'']) = Inr (butlast cur)"
        using "2.prems"(2) dir by (simp add: namei_append)
      show "\<forall>s\<in>set (res @ [''..'']). s \<noteq> [] \<and> s \<noteq> ''.''"
        using "2.prems"(3) by auto
      show "a \<or> b = [] \<and> ''..'' \<notin> set (res @ [''..''])" using up(3) by simp
    qed
    with up show ?thesis by auto
  next
    case drop
    from drop "2.prems"(4) have b: "b = []" and no: "''..'' \<notin> set res" by auto
    from drop(2) no have "res = []" using last_in_set by fastforce
    with "2.prems"(2) b have cur: "cur = []" by simp
    have step: "namei root cur cs = Inr l"
      using "2.prems"(1) dir drop(1) cur by simp
    have "namei root b (normalizeSegs a res cs) = Inr l"
    proof (rule "2.IH"(4))
      show "\<not> (c = [] \<or> c = ''.'')" using drop(1) by simp
      show "c = ''..''" by fact
      show "\<not> (res \<noteq> [] \<and> last res \<noteq> ''..'')" using drop(2) by simp
      show "\<not> a" by fact
      show "namei root cur cs = Inr l" by fact
      show "namei root b res = Inr cur" by fact
      show "\<forall>s\<in>set res. s \<noteq> [] \<and> s \<noteq> ''.''" by fact
      show "a \<or> b = [] \<and> ''..'' \<notin> set res" by fact
    qed
    with drop show ?thesis by auto
  next
    case name
    from "2.prems"(1) dir name obtain n where
      child: "map_of es c = Some n" and step: "namei root (cur @ [c]) cs = Inr l"
      by (auto split: option.splits)
    have "namei root b (normalizeSegs a (res @ [c]) cs) = Inr l"
    proof (rule "2.IH"(5))
      show "\<not> (c = [] \<or> c = ''.'')" using name by simp
      show "c \<noteq> ''..''" by fact
      show "namei root (cur @ [c]) cs = Inr l" by fact
      show "namei root b (res @ [c]) = Inr (cur @ [c])"
        using "2.prems"(2) dir name child by (simp add: namei_append)
      show "\<forall>s\<in>set (res @ [c]). s \<noteq> [] \<and> s \<noteq> ''.''"
        using "2.prems"(3) name by auto
      show "a \<or> b = [] \<and> ''..'' \<notin> set (res @ [c])"
        using "2.prems"(4) name by auto
    qed
    with name show ?thesis by auto
  qed
qed

lemma normalizeSegs_nonempty:
  "s \<in> set (normalizeSegs a res cs) \<Longrightarrow> s \<in> set res \<or> (s \<in> set cs \<and> s \<noteq> [] \<and> s \<noteq> ''.'')"
proof (induction a res cs rule: normalizeSegs.induct)
  case (1 a res) then show ?case by simp
next
  case (2 a res c cs)
  consider (skip) "c = [] \<or> c = ''.''"
    | (pop) "c = ''..''" "res \<noteq> []" "last res \<noteq> ''..''"
    | (up) "c = ''..''" "res = [] \<or> last res = ''..''" "a"
    | (drop) "c = ''..''" "res = [] \<or> last res = ''..''" "\<not> a"
    | (name) "c \<noteq> []" "c \<noteq> ''.''" "c \<noteq> ''..''"
    by blast
  then show ?case
  proof cases
    case skip
    with "2.prems" have "s \<in> set (normalizeSegs a res cs)" by auto
    with skip "2.IH"(1) show ?thesis by auto
  next
    case pop
    with "2.prems" have "s \<in> set (normalizeSegs a (butlast res) cs)" by auto
    with pop "2.IH"(2) have "s \<in> set (butlast res) \<or> s \<in> set cs \<and> s \<noteq> [] \<and> s \<noteq> ''.''" by auto
    then show ?thesis by (auto dest: in_set_butlastD)
  next
    case up
    with "2.prems" have "s \<in> set (normalizeSegs a (res @ [''..'']) cs)" by auto
    with up "2.IH"(3) have "s \<in> set (res @ [''..'']) \<or> s \<in> set cs \<and> s \<noteq> [] \<and> s \<noteq> ''.''" by auto
    with up show ?thesis by auto
  next
    case drop
    with "2.prems" have "s \<in> set (normalizeSegs a res cs)" by auto
    with drop "2.IH"(4) show ?thesis by auto
  next
    case name
    with "2.prems" have "s \<in> set (normalizeSegs a (res @ [c]) cs)" by auto
    with name "2.IH"(5) have "s \<in> set (res @ [c]) \<or> s \<in> set cs \<and> s \<noteq> [] \<and> s \<noteq> ''.''" by auto
    with name show ?thesis by auto
  qed
qed

lemma plain_ends: "f \<noteq> [] \<Longrightarrow> c \<notin> set f \<Longrightarrow> hd f \<noteq> c \<and> last f \<noteq> c"
  by (metis hd_in_set last_in_set)

lemma joinSegs_Nil: "\<forall>s \<in> set ns. s \<noteq> [] \<Longrightarrow> (joinSegs ns = []) = (ns = [])"
  by (induction ns rule: joinSegs.induct) simp_all

lemma joinSegs_hd:
  "ns \<noteq> [] \<Longrightarrow> \<forall>s \<in> set ns. s \<noteq> [] \<Longrightarrow> hd (joinSegs ns) = hd (hd ns)"
  by (induction ns rule: joinSegs.induct) simp_all

lemma kept_free: "s \<in> set (kept d) \<Longrightarrow> CHR ''/'' \<notin> set s \<and> s \<noteq> []"
  unfolding kept_def using normalizeSegs_nonempty [of s "\<not> absolute d" "[]" "splitOn CHR ''/'' d"]
  by (auto dest: splitOn_free)

lemma path_join_plain:
  assumes "plainName f"
  shows "path_join d f = (if absolute d then ''/'' else []) @ joinSegs (kept d @ [f])"
proof (cases "d = []")
  case True
  have "hd f \<noteq> CHR ''/''" "last f \<noteq> CHR ''/''" "f \<noteq> []"
    using assms plain_ends [of f "CHR ''/''"] by (auto simp: plainName_def)
  moreover have "normalizeSegs True [] [f] = [f]" using assms by (simp add: plainName_def)
  ultimately show ?thesis using True assms
    by (simp add: path_join_def normalize_path_def normalizeString_def kept_def absolute_def
          splitOn_plain plainName_def Let_def)
next
  case False
  let ?j = "d @ CHR ''/'' # f"
  have f: "f \<noteq> []" "CHR ''/'' \<notin> set f" using assms by (auto simp: plainName_def)
  have hd: "hd ?j = hd d" using False by simp
  have last: "last ?j \<noteq> CHR ''/''" using f plain_ends [of f "CHR ''/''"] by simp
  have sp: "splitOn CHR ''/'' ?j = splitOn CHR ''/'' d @ [f]" using f by (simp add: splitOn_join)
  have abs: "(hd d = CHR ''/'') = absolute d" using False by (simp add: absolute_def)
  have ns: "normalizeString ?j (\<not> absolute d) = joinSegs (kept d @ [f])"
    unfolding normalizeString_def sp kept_def by (simp add: normalizeSegs_snoc assms)
  have ne: "joinSegs (kept d @ [f]) \<noteq> []" using f by (simp add: joinSegs_snoc)
  have "normalize_path ?j = (if absolute d then ''/'' else []) @ joinSegs (kept d @ [f])"
    unfolding normalize_path_def Let_def hd abs ns using ne last by simp
  then show ?thesis
    using False f by (simp add: path_join_def)
qed

lemma path_join_suffix:
  assumes "plainName f"
  shows "\<exists>pre. path_join d f = pre @ f \<and> (pre = [] \<or> last pre = CHR ''/'')"
proof (cases "kept d = []")
  case True
  have "path_join d f = (if absolute d then ''/'' else []) @ f"
    unfolding path_join_plain [OF assms] True by simp
  moreover have "(if absolute d then ''/'' else []) = [] \<or> last (if absolute d then ''/'' else []) = CHR ''/''"
    by simp
  ultimately show ?thesis by blast
next
  case False
  let ?pre = "(if absolute d then ''/'' else []) @ joinSegs (kept d) @ ''/''"
  have "path_join d f = ?pre @ f"
    unfolding path_join_plain [OF assms] by (simp add: joinSegs_snoc False)
  moreover have "last ?pre = CHR ''/''" by simp
  ultimately show ?thesis by blast
qed

lemma suffix_join:
  assumes "suffix s (path_join d f)" and "CHR ''/'' \<notin> set s" and "plainName f"
  shows "suffix s f"
proof -
  from path_join_suffix [OF assms(3), of d] obtain pre where
    p: "path_join d f = pre @ f" and l: "pre = [] \<or> last pre = CHR ''/''" by blast
  from assms(1) have "suffix s (pre @ f)" by (simp only: p)
  then have "suffix s f \<or> (\<exists>s'. s = s' @ f \<and> suffix s' pre)"
    by (simp only: suffix_append)
  then show ?thesis
  proof
    assume "suffix s f" then show ?thesis .
  next
    assume "\<exists>s'. s = s' @ f \<and> suffix s' pre"
    then obtain s' where s: "s = s' @ f" and sp: "suffix s' pre" by blast
    show ?thesis
    proof (cases "s' = []")
      case True with s show ?thesis by simp
    next
      case False
      from sp obtain q where q: "pre = q @ s'" by (auto simp: suffix_def)
      with False have "last pre = last s'" by simp
      moreover from q False have "pre \<noteq> []" by simp
      ultimately have "last s' = CHR ''/''" using l by simp
      with False have "CHR ''/'' \<in> set s'" by (metis last_in_set)
      with s assms(2) show ?thesis by simp
    qed
  qed
qed

lemma join_suffix: "plainName f \<Longrightarrow> suffix f (path_join d f)"
proof -
  assume "plainName f"
  from path_join_suffix [OF this, of d] obtain pre where "path_join d f = pre @ f" by blast
  then show ?thesis by (simp only: suffix_def) blast
qed




lemma components_kept:
  assumes "ns \<noteq> []" and "\<forall>s \<in> set ns. CHR ''/'' \<notin> set s \<and> s \<noteq> []"
  shows "components cd ((if a then ''/'' else []) @ joinSegs ns)
           = (if a then [[]] else splitOn CHR ''/'' cd) @ ns"
proof -
  have sp: "splitOn CHR ''/'' (joinSegs ns) = ns" using assms by (intro splitOn_joinSegs) auto
  have j: "joinSegs ns \<noteq> []" using assms by (simp add: joinSegs_Nil)
  have "hd (hd ns) \<noteq> CHR ''/''" using assms plain_ends [of "hd ns" "CHR ''/''"] by (cases ns) auto
  then have hd: "hd (joinSegs ns) \<noteq> CHR ''/''" using assms by (simp add: joinSegs_hd)
  show ?thesis using sp j hd by (simp add: components_def)
qed

lemma namei_dir:
  "namei root l cs = Inr r \<Longrightarrow> cs \<noteq> [] \<Longrightarrow> \<exists>es. lookup_at l root = Some (Dir es)"
  by (cases cs) (auto split: option.splits node.splits)

text \<open>
  When the kernel finds \<open>d\<close>, it finds what \<^verbatim>\<open>path.join\<close> makes of \<open>d\<close> and a name
  in the same place.
\<close>

lemma locate_kept:
  assumes "locate root cd d = Inr loc"
  shows "\<exists>b. namei root [] (if absolute d then [[]] else splitOn CHR ''/'' cd) = Inr b
           \<and> namei root b (kept d) = Inr loc
           \<and> (\<exists>es. lookup_at b root = Some (Dir es))"
proof (cases "absolute d")
  case True
  with assms have w: "namei root [] (splitOn CHR ''/'' d) = Inr loc"
    by (simp add: locate_def components_def absolute_def split: if_splits)
  from namei_dir [OF w] obtain es where dir: "lookup_at [] root = Some (Dir es)" by auto
  have "namei root [] (kept d) = Inr loc"
    unfolding kept_def using True by (intro namei_normalizeSegs [OF w]) simp_all
  with dir True show ?thesis by (auto split: node.splits)
next
  case False
  with assms have ne: "d \<noteq> []"
    and w: "namei root [] (splitOn CHR ''/'' cd @ splitOn CHR ''/'' d) = Inr loc"
    by (auto simp: locate_def components_def absolute_def split: if_splits)
  from w obtain b where b: "namei root [] (splitOn CHR ''/'' cd) = Inr b"
    and w': "namei root b (splitOn CHR ''/'' d) = Inr loc"
    by (auto simp: namei_append split: sum.splits)
  from namei_dir [OF w'] obtain es where dir: "lookup_at b root = Some (Dir es)" by auto
  have "namei root b (kept d) = Inr loc"
    unfolding kept_def using False by (intro namei_normalizeSegs [OF w']) simp_all
  with b dir False show ?thesis by auto
qed

lemma locate_join:
  assumes "locate root cd d = Inr loc" and "plainName f"
  shows "locate root cd (path_join d f) = namei root loc [f]"
proof -
  from locate_kept [OF assms(1)] obtain b es where
    b: "namei root [] (if absolute d then [[]] else splitOn CHR ''/'' cd) = Inr b"
    and k: "namei root b (kept d) = Inr loc" and dir: "lookup_at b root = Some (Dir es)" by blast
  have free: "\<forall>s \<in> set (kept d @ [f]). CHR ''/'' \<notin> set s \<and> s \<noteq> []"
    using kept_free [of _ d] assms(2) by (auto simp: plainName_def)
  have ne: "path_join d f \<noteq> []"
    unfolding path_join_plain [OF assms(2)] using assms(2) by (simp add: joinSegs_snoc plainName_def)
  have "components cd (path_join d f)
          = (if absolute d then [[]] else splitOn CHR ''/'' cd) @ kept d @ [f]"
    unfolding path_join_plain [OF assms(2)] using free by (intro components_kept) simp_all
  then show ?thesis
    using ne b k by (simp add: locate_def namei_append del: namei.simps)
qed


lemma write_at_kind:
  "write_at p T content root = Inr root' \<Longrightarrow> lookup_at l root = Some n \<Longrightarrow>
     \<exists>n'. lookup_at l root' = Some n' \<and> isDirectory n' = isDirectory n"
proof (induction p T content root arbitrary: root' l n rule: write_at.induct)
  case (1 p content old)
  then show ?case by (cases l) auto
next
  case (2 p content es)
  then show ?case by simp
next
  case (3 p c cs content old)
  then show ?case by simp
next
  case (4 p c cs content es)
  show ?case
  proof (cases l)
    case Nil
    with 4(2,3) show ?thesis by (auto split: option.splits if_splits sum.splits)
  next
    case (Cons x xs)
    with 4(3) obtain m where m: "map_of es x = Some m" and sub: "lookup_at xs m = Some n"
      by (auto split: option.splits)
    show ?thesis
    proof (cases "map_of es c")
      case None
      with 4(2) have r: "root' = Dir (es @ [(c, File content)])" by (auto split: if_splits)
      show ?thesis using m sub by (simp add: r Cons map_add_def)
    next
      case (Some k)
      with 4(2) obtain k' where w: "write_at p cs content k = Inr k'"
        and r: "root' = Dir (AList.update c k' es)" by (auto split: sum.splits)
      show ?thesis
      proof (cases "x = c")
        case True
        with m Some have "k = m" by simp
        from "4.IH" [OF Some w, of xs n] sub this obtain n' where
          "lookup_at xs k' = Some n'" "isDirectory n' = isDirectory n" by auto
        then show ?thesis using True by (simp add: r Cons update_conv')
      next
        case False
        then show ?thesis using m sub by (simp add: r Cons update_conv')
      qed
    qed
  qed
qed

lemma write_at_written:
  "write_at p T content root = Inr root' \<Longrightarrow> lookup_at T root' = Some (File content)"
proof (induction p T content root arbitrary: root' rule: write_at.induct)
  case (4 p c cs content es)
  show ?case
  proof (cases "map_of es c")
    case None
    with 4(2) show ?thesis by (auto split: if_splits simp: map_add_def)
  next
    case (Some k)
    with 4(2) obtain k' where w: "write_at p cs content k = Inr k'"
      and r: "root' = Dir (AList.update c k' es)" by (auto split: sum.splits)
    from "4.IH" [OF Some w] show ?thesis by (simp add: r update_conv')
  qed
qed simp_all

lemma namei_write:
  "namei root l cs = Inr r \<Longrightarrow> write_at p T content root = Inr root' \<Longrightarrow> namei root' l cs = Inr r"
proof (induction root l cs rule: namei.induct)
  case (1 root loc)
  then show ?case by simp
next
  case (2 root loc c cs)
  from "2.prems"(1) obtain es where dir: "lookup_at loc root = Some (Dir es)"
    by (auto split: option.splits node.splits)
  from write_at_kind [OF "2.prems"(2) dir] obtain es' where dir': "lookup_at loc root' = Some (Dir es')"
    by (metis isDirectory.elims(2) isDirectory.simps(1))
  consider (skip) "c = [] \<or> c = ''.''" | (up) "c = ''..''" | (name) "c \<noteq> []" "c \<noteq> ''.''" "c \<noteq> ''..''"
    by blast
  then show ?case
  proof cases
    case skip
    with "2.prems" dir have "namei root loc cs = Inr r" by auto
    with "2.IH"(1) [OF dir] skip "2.prems"(2) have "namei root' loc cs = Inr r" by auto
    with skip dir' show ?thesis by auto
  next
    case up
    with "2.prems" dir have "namei root (butlast loc) cs = Inr r" by auto
    with "2.IH"(2) [OF dir] up "2.prems"(2) have "namei root' (butlast loc) cs = Inr r" by auto
    with up dir' show ?thesis by auto
  next
    case name
    with "2.prems"(1) dir obtain n where n: "map_of es c = Some n"
      and s: "namei root (loc @ [c]) cs = Inr r" by (auto split: option.splits)
    from n dir have "lookup_at (loc @ [c]) root = Some n" by (simp add: lookup_at_snoc)
    from write_at_kind [OF "2.prems"(2) this] dir' obtain n' where n': "map_of es' c = Some n'"
      by (auto simp: lookup_at_snoc)
    from "2.IH"(3) [OF dir refl _ _ n s "2.prems"(2)] name
    have "namei root' (loc @ [c]) cs = Inr r" by auto
    with name dir' n' show ?thesis by auto
  qed
qed

lemma lookup_at_parent:
  "lookup_at l root = Some n \<Longrightarrow> \<exists>es. lookup_at (butlast l) root = Some (Dir es) \<or> l = []"
proof (cases l rule: rev_cases)
  case Nil then show ?thesis by simp
next
  case (snoc xs x)
  assume "lookup_at l root = Some n"
  with snoc show ?thesis by (auto simp: lookup_at_snoc split: option.splits node.splits)
qed

text \<open>A walk that ends at a regular file ends with the name of that file.\<close>

lemma namei_file:
  assumes "namei root l (cs @ [c]) = Inr r" and "lookup_at r root = Some (File old)"
  shows "c \<noteq> [] \<and> c \<noteq> ''.'' \<and> c \<noteq> ''..''
       \<and> (\<exists>r' es. namei root l cs = Inr r' \<and> r = r' @ [c] \<and> lookup_at r' root = Some (Dir es))"
proof -
  from assms(1) obtain r' where r': "namei root l cs = Inr r'" and s: "namei root r' [c] = Inr r"
    by (auto simp: namei_append split: sum.splits)
  from s obtain es where dir: "lookup_at r' root = Some (Dir es)"
    by (auto split: option.splits node.splits)
  have "\<not> (c = [] \<or> c = ''.'')"
  proof
    assume "c = [] \<or> c = ''.''"
    with s dir have "r = r'" by auto
    with dir assms(2) show False by simp
  qed
  moreover have "c \<noteq> ''..''"
  proof
    assume "c = ''..''"
    with s dir have r: "r = butlast r'" by auto
    from lookup_at_parent [OF dir] dir have "\<exists>es. lookup_at (butlast r') root = Some (Dir es)"
      by auto
    with r assms(2) show False by auto
  qed
  ultimately show ?thesis using s dir r' by (auto split: option.splits)
qed

lemma named_all: "last cs \<noteq> [] \<Longrightarrow> rev (dropWhile (\<lambda>c. c = []) (rev cs)) = cs"
  by (cases cs rule: rev_cases) auto

lemma components_not_Nil [simp]: "components cd p \<noteq> []"
  by (simp add: components_def)

lemma target_name:
  assumes "p \<noteq> []" and "components cd p = cs @ [c]"
      and "c \<noteq> []" "c \<noteq> ''.''" "c \<noteq> ''..''"
      and "namei root [] cs = Inr loc" and "lookup_at loc root = Some (Dir es)"
  shows "target root cd p = Inr (loc @ [c])"
proof -
  have named: "rev (dropWhile (\<lambda>c. c = []) (rev (cs @ [c]))) = cs @ [c]"
    using assms(3) by (intro named_all) simp
  show ?thesis
    unfolding target_def Let_def assms(2) named using assms(1,3,4,5,6,7) by simp
qed

lemma target_Inr:
  assumes "target root cd p = Inr T"
  shows "\<exists>cs c loc es. p \<noteq> [] \<and> components cd p = cs @ [c]
           \<and> c \<noteq> [] \<and> c \<noteq> ''.'' \<and> c \<noteq> ''..''
           \<and> namei root [] cs = Inr loc \<and> lookup_at loc root = Some (Dir es) \<and> T = loc @ [c]"
proof -
  obtain cs c where cs: "components cd p = cs @ [c]"
    using components_not_Nil [of cd p] by (metis rev_exhaust)
  let ?named = "rev (dropWhile (\<lambda>c. c = []) (rev (cs @ [c])))"
  from assms have ne: "p \<noteq> []" by (auto simp: target_def split: if_splits)
  have c0: "c \<noteq> []"
  proof
    assume e: "c = []"
    have "length (dropWhile (\<lambda>c. c = []) (rev cs)) \<le> length (rev cs)"
      by (rule length_dropWhile_le)
    with e have "length ?named \<le> length cs" by simp
    have "?named \<noteq> cs @ [c]"
    proof
      assume "?named = cs @ [c]"
      then have "length ?named = Suc (length cs)" by (simp only: length_append_singleton)
      with \<open>length ?named \<le> length cs\<close> show False by simp
    qed
    with assms ne show False
      unfolding target_def Let_def cs
      by (simp split: if_splits sum.splits option.splits node.splits)
  qed
  then have named: "?named = cs @ [c]" by (intro named_all) simp
  from assms ne show ?thesis
    unfolding target_def Let_def cs named using c0
    by (auto split: if_splits sum.splits option.splits node.splits)
qed

lemma target_file:
  assumes "locate root cd p = Inr loc" and "lookup_at loc root = Some (File old)"
  shows "target root cd p = Inr loc"
proof -
  from assms(1) have ne: "p \<noteq> []" and w: "namei root [] (components cd p) = Inr loc"
    by (auto simp: locate_def split: if_splits)
  obtain cs c where cs: "components cd p = cs @ [c]"
    using components_not_Nil [of cd p] by (metis rev_exhaust)
  from namei_file [OF w [unfolded cs] assms(2)] obtain r' es where
    c: "c \<noteq> []" "c \<noteq> ''.''" "c \<noteq> ''..''" and r': "namei root [] cs = Inr r'"
    and loc: "loc = r' @ [c]" and dir: "lookup_at r' root = Some (Dir es)" by blast
  show ?thesis unfolding loc using ne cs c r' dir by (rule target_name)
qed

lemma target_join:
  assumes "locate root cd d = Inr loc" and "lookup_at loc root = Some (Dir es)" and "plainName f"
  shows "target root cd (path_join d f) = Inr (loc @ [f])"
proof -
  from locate_kept [OF assms(1)] obtain b where
    b: "namei root [] (if absolute d then [[]] else splitOn CHR ''/'' cd) = Inr b"
    and k: "namei root b (kept d) = Inr loc" by blast
  have free: "\<forall>s \<in> set (kept d @ [f]). CHR ''/'' \<notin> set s \<and> s \<noteq> []"
    using kept_free [of _ d] assms(3) by (auto simp: plainName_def)
  have ne: "path_join d f \<noteq> []"
    unfolding path_join_plain [OF assms(3)] using assms(3) by (simp add: joinSegs_snoc plainName_def)
  let ?b = "if absolute d then [[]] else splitOn CHR ''/'' cd"
  have cs: "components cd (path_join d f) = (?b @ kept d) @ [f]"
    unfolding path_join_plain [OF assms(3)] using free by (simp add: components_kept)
  have f: "f \<noteq> []" "f \<noteq> ''.''" "f \<noteq> ''..''" using assms(3) by (auto simp: plainName_def)
  have walk: "namei root [] (?b @ kept d) = Inr loc"
    using b k by (simp add: namei_append del: namei.simps)
  show ?thesis using ne cs f walk assms(2) by (rule target_name)
qed

lemma target_written:
  assumes "target root cd p = Inr T" and "write_at p T content root = Inr root'"
  shows "locate root' cd p = Inr T \<and> lookup_at T root' = Some (File content)"
proof -
  from target_Inr [OF assms(1)] obtain cs c loc es where
    ne: "p \<noteq> []" and cs: "components cd p = cs @ [c]"
    and c: "c \<noteq> []" "c \<noteq> ''.''" "c \<noteq> ''..''"
    and w: "namei root [] cs = Inr loc" and dir: "lookup_at loc root = Some (Dir es)"
    and T: "T = loc @ [c]" by blast
  have written: "lookup_at T root' = Some (File content)"
    using assms(2) by (rule write_at_written)
  from write_at_kind [OF assms(2) dir] obtain es' where dir': "lookup_at loc root' = Some (Dir es')"
    by (metis isDirectory.elims(2) isDirectory.simps(1))
  from written dir' have m: "map_of es' c = Some (File content)"
    by (simp add: T lookup_at_snoc)
  have w': "namei root' [] cs = Inr loc" using w assms(2) by (rule namei_write)
  have "namei root' [] (cs @ [c]) = Inr T"
    using w' dir' m c T by (simp add: namei_append)
  with ne written cs show ?thesis by (simp add: locate_def)
qed

lemma resolve_same: "fs w' = fs w \<Longrightarrow> cwd w' = cwd w \<Longrightarrow> resolve w' p = resolve w p"
  by (simp add: resolve_def split: sum.splits)

lemma resolve_empty [simp]: "resolve w [] = None"
  by (simp add: resolve_def locate_def)

lemma resolve_ne: "resolve w p = Some n \<Longrightarrow> p \<noteq> []"
  by auto

lemmas path_eval = path_join_def normalize_path_def normalizeString_def Let_def

lemmas fs_eval = resolve_def failure_def locate_def components_def

lemma resolve_Some:
  "(resolve w p = Some n) = (\<exists>loc. locate (fs w) (cwd w) p = Inr loc \<and> lookup_at loc (fs w) = Some n)"
  by (auto simp: resolve_def split: sum.splits)

lemma resolve_join:
  assumes "resolve w d = Some (Dir es)" and "plainName n"
  shows "resolve w (path_join d n) = map_of es n"
proof -
  from assms(1) obtain loc where l: "locate (fs w) (cwd w) d = Inr loc"
    and dir: "lookup_at loc (fs w) = Some (Dir es)" by (auto simp: resolve_Some)
  have n: "n \<noteq> []" "n \<noteq> ''.''" "n \<noteq> ''..''" using assms(2) by (auto simp: plainName_def)
  show ?thesis
    unfolding resolve_def locate_join [OF l assms(2)] using dir n
    by (auto simp: lookup_at_snoc split: option.splits)
qed

lemma listed_entry:
  assumes "resolve w d = Some (Dir es)" and "plainName n" and "map_of es n = Some x"
  shows "stat (path_join d n) w = (Inr x, w)"
  using assms by (simp add: stat_def resolve_join)

lemma failure_join:
  assumes "resolve w d = Some (Dir es)" and "plainName n" and "map_of es n = None"
  shows "failure w (path_join d n) = NoEntry"
proof -
  from assms(1) obtain loc where l: "locate (fs w) (cwd w) d = Inr loc"
    and dir: "lookup_at loc (fs w) = Some (Dir es)" by (auto simp: resolve_Some)
  have n: "n \<noteq> []" "n \<noteq> ''.''" "n \<noteq> ''..''" using assms(2) by (auto simp: plainName_def)
  show ?thesis
    unfolding failure_def locate_join [OF l assms(2)] using dir n assms(3) by simp
qed

lemma write_at_snoc:
  assumes "lookup_at cs root = Some (Dir es)"
      and "map_of es n = None \<or> (\<exists>old. map_of es n = Some (File old))"
  shows "\<exists>root'. write_at p (cs @ [n]) content root = Inr root'"
  using assms
proof (induction cs arbitrary: root)
  case Nil
  then have root: "root = Dir es" by simp
  from Nil(2) show ?case by (auto simp: root)
next
  case (Cons c cs)
  from Cons.prems(1) obtain es0 child where root: "root = Dir es0"
    and child: "map_of es0 c = Some child" and sub: "lookup_at cs child = Some (Dir es)"
    by (cases root) (auto split: option.splits)
  from Cons.IH [OF sub Cons.prems(2)] obtain child' where
    w: "write_at p (cs @ [n]) content child = Inr child'" by blast
  show ?case by (simp add: root child w)
qed

lemma write_at_file:
  "lookup_at cs root = Some (File old) \<Longrightarrow> \<exists>root'. write_at p cs content root = Inr root'"
proof (induction cs arbitrary: root)
  case Nil then show ?case by simp
next
  case (Cons c cs)
  from Cons.prems obtain es child where root: "root = Dir es"
    and child: "map_of es c = Some child" and sub: "lookup_at cs child = Some (File old)"
    by (cases root) (auto split: option.splits)
  from Cons.IH [OF sub] obtain child' where "write_at p cs content child = Inr child'" by blast
  then show ?case by (simp add: root child)
qed

text \<open>What was written is what the same path reads afterwards.\<close>

lemma writeFile_Inr:
  assumes "writeFile p content w = (Inr (), w')"
  shows "\<exists>root'. w' = w\<lparr>fs := root', trace := trace w @ [Write p content]\<rparr>
           \<and> resolve w' p = Some (File content)"
proof -
  from assms obtain loc root' where t: "target (fs w) (cwd w) p = Inr loc"
    and wr: "write_at p loc content (fs w) = Inr root'"
    and w': "w' = w\<lparr>fs := root', trace := trace w @ [Write p content]\<rparr>"
    by (auto simp: writeFile_def split: sum.splits)
  from target_written [OF t wr] have "resolve w' p = Some (File content)"
    by (simp add: resolve_def w')
  with w' show ?thesis by blast
qed

lemma writeFile_file:
  assumes "resolve w p = Some (File old)"
  shows "\<exists>root'. writeFile p content w = (Inr (), w\<lparr>fs := root', trace := trace w @ [Write p content]\<rparr>)
           \<and> resolve (w\<lparr>fs := root'\<rparr>) p = Some (File content)"
proof -
  from assms obtain loc where l: "locate (fs w) (cwd w) p = Inr loc"
    and f: "lookup_at loc (fs w) = Some (File old)" by (auto simp: resolve_Some)
  from target_file [OF l f] have t: "target (fs w) (cwd w) p = Inr loc" .
  from write_at_file [OF f, of p content] obtain root' where
    wr: "write_at p loc content (fs w) = Inr root'" by blast
  from target_written [OF t wr] have "resolve (w\<lparr>fs := root'\<rparr>) p = Some (File content)"
    by (simp add: resolve_def)
  with t wr show ?thesis by (auto simp: writeFile_def)
qed

lemma writeFile_join:
  assumes dir: "resolve w d = Some (Dir es)"
      and n: "plainName n"
      and free: "map_of es n = None \<or> (\<exists>old. map_of es n = Some (File old))"
  shows "\<exists>root'. writeFile (path_join d n) content w =
                    (Inr (), w\<lparr>fs := root', trace := trace w @ [Write (path_join d n) content]\<rparr>)
           \<and> resolve (w\<lparr>fs := root'\<rparr>) (path_join d n) = Some (File content)"
proof -
  from dir obtain loc where l: "locate (fs w) (cwd w) d = Inr loc"
    and f: "lookup_at loc (fs w) = Some (Dir es)" by (auto simp: resolve_Some)
  from target_join [OF l f n] have t: "target (fs w) (cwd w) (path_join d n) = Inr (loc @ [n])" .
  from write_at_snoc [OF f free, of "path_join d n" content] obtain root' where
    wr: "write_at (path_join d n) (loc @ [n]) content (fs w) = Inr root'" by blast
  from target_written [OF t wr]
  have "resolve (w\<lparr>fs := root'\<rparr>) (path_join d n) = Some (File content)"
    by (simp add: resolve_def)
  with t wr show ?thesis by (auto simp: writeFile_def)
qed







lemma keeps_ret: "keeps obs P (ret x)"
  by (simp add: keeps_def ret_def)

lemma keeps_throw: "keeps obs P (throw e)"
  by (simp add: keeps_def throw_def)

lemma keeps_of_result: "keeps obs P (of_result r)"
  by (simp add: keeps_def of_result_def)

lemma keeps_bind:
  assumes "keeps obs P m" and "\<And>x. keeps obs P (f x)"
  shows "keeps obs P (bind m f)"
  unfolding keeps_def bind_def
proof (intro allI impI)
  fix w assume P: "P (obs w)"
  from assms(1) P have 1: "obs (snd (m w)) = obs w" by (simp add: keeps_def)
  show "obs (snd (case m w of (Inl e, w') \<Rightarrow> (Inl e, w') | (Inr x, w') \<Rightarrow> f x w')) = obs w"
  proof (cases "m w")
    case (Pair r w')
    with 1 have o: "obs w' = obs w" by simp
    show ?thesis
    proof (cases r)
      case (Inl e) with Pair o show ?thesis by simp
    next
      case (Inr x)
      from assms(2) [of x] P o have "obs (snd (f x w')) = obs w'" by (simp add: keeps_def)
      with Pair Inr o show ?thesis by simp
    qed
  qed
qed

lemma keeps_seq:
  assumes "keeps obs P m" and "keeps obs P n"
  shows "keeps obs P (seq m n)"
  unfolding seq_def using assms by (intro keeps_bind) simp_all

lemma keeps_catch:
  assumes "keeps obs P m" and "\<And>e. keeps obs P (h e)"
  shows "keeps obs P (catch m h)"
  unfolding keeps_def catch_def
proof (intro allI impI)
  fix w assume P: "P (obs w)"
  from assms(1) P have 1: "obs (snd (m w)) = obs w" by (simp add: keeps_def)
  show "obs (snd (case m w of (Inl (Crash e), w') \<Rightarrow> (Inl (Crash e), w')
                   | (Inl e, w') \<Rightarrow> h e w' | (Inr x, w') \<Rightarrow> (Inr x, w'))) = obs w"
  proof (cases "m w")
    case (Pair r w')
    with 1 have o: "obs w' = obs w" by simp
    show ?thesis
    proof (cases r)
      case (Inr x) with Pair o show ?thesis by simp
    next
      case (Inl e)
      from assms(2) [of e] P o have "obs (snd (h e w')) = obs w'" by (simp add: keeps_def)
      with Pair Inl o show ?thesis by (cases e) simp_all
    qed
  qed
qed

lemma keeps_if:
  assumes "c \<Longrightarrow> keeps obs P a" and "\<not> c \<Longrightarrow> keeps obs P b"
  shows "keeps obs P (if c then a else b)"
  using assms by simp

lemma keeps_case_prod:
  assumes "\<And>a b. keeps obs P (f a b)"
  shows "keeps obs P (case x of (a, b) \<Rightarrow> f a b)"
  using assms by (cases x) simp

lemma keeps_case_option:
  assumes "keeps obs P a" and "\<And>x. keeps obs P (f x)"
  shows "keeps obs P (case v of None \<Rightarrow> a | Some x \<Rightarrow> f x)"
  using assms by (cases v) simp_all

lemma keeps_Let:
  assumes "\<And>x. keeps obs P (f x)"
  shows "keeps obs P (Let v f)"
  using assms by (simp add: Let_def)

lemmas keeps_rules = keeps_ret keeps_throw keeps_of_result keeps_bind keeps_seq keeps_catch keeps_if
  keeps_case_prod keeps_case_option keeps_Let

text \<open>The calls that write no file.\<close>

lemma files_emit:
  "\<forall>p c. e \<noteq> Write p c \<Longrightarrow> keeps files_of P (emit e)"
  by (cases e) (simp_all add: keeps_def files_of_def emit_def)

lemma files_log: "keeps files_of P (log s)"
  by (simp add: log_def files_emit)

lemma files_spinner: "keeps files_of P (spinner k s)"
  by (simp add: spinner_def files_emit)

lemma files_console: "keeps files_of P (emit (Console s))"
  by (simp add: files_emit)

lemma files_stdout: "keeps files_of P (emit (Stdout s))" "keeps files_of P (emit (Stderr s))"
  by (simp_all add: files_emit)

lemma files_exec: "keeps files_of P (exec c)"
  by (simp add: keeps_def files_of_def exec_def Let_def)

lemma files_sleep: "keeps files_of P (sleep n)"
  by (simp add: keeps_def files_of_def sleep_def)

lemma files_fsread:
  "keeps files_of P (stat p)" "keeps files_of P (readdir p)" "keeps files_of P (readFile p)"
  "keeps files_of P (pathExists p)" "keeps files_of P moduleDir" "keeps files_of P processCwd"
  "keeps files_of P (path_resolve p)"
  by (auto simp: keeps_def stat_def readdir_def readFile_def pathExists_def moduleDir_def
        processCwd_def path_resolve_def Let_def split: option.splits node.splits)

lemmas files_prims = files_log files_spinner files_console files_stdout files_exec files_sleep files_fsread

lemma files_scanEntireDirectory: "keeps files_of P (scanEntireDirectory p)"
  unfolding scanEntireDirectory_def by (intro keeps_rules files_prims)

lemma files_classifyFiles: "keeps files_of P (classifyFiles files flags)"
proof (induction files arbitrary: flags)
  case Nil show ?case by (simp add: keeps_ret)
next
  case (Cons f files)
  obtain d p where flags: "flags = (d, p)" by (cases flags)
  show ?case unfolding flags classifyFiles.simps
    by (intro keeps_rules files_prims Cons.IH)
qed

lemma files_buildDockerImage: "keeps files_of P (buildDockerImage p n t)"
  unfolding buildDockerImage_def runBuild_def findFileRecursively_def
  by (intro keeps_rules files_prims)




lemma scanProject_file_run:
  assumes "resolve w projectPath = Some (File content)"
  shows "scanProject L projectPath projectName imageTag w =
           (Inr (), w\<lparr>trace := trace w @
              [Log (''Received projectName: '' @ projectName @ '', imageTag: '' @ imageTag),
               Spinner ''start'' ''Starting the project scan...'',
               Log (''Scanning directory: '' @ projectPath),
               Spinner ''fail'' (''Error: '' @ projectPath @ '' is not a directory''),
               Log (''Provided path is not a directory: '' @ projectPath)]\<rparr>)"
  using assms by (simp add: scanProject_def stat_def io_defs)

lemma scanProject_stat_fails:
  assumes "resolve w projectPath = None"
  shows "scanProject L projectPath projectName imageTag w =
           (Inl (sys_error (failure w projectPath) ''stat'' projectPath),
            w\<lparr>trace := trace w @
              [Log (''Received projectName: '' @ projectName @ '', imageTag: '' @ imageTag),
               Spinner ''start'' ''Starting the project scan...'',
               Log (''Scanning directory: '' @ projectPath),
               Log (''Error scanning project or building Docker image: ''
                    @ message (sys_error (failure w projectPath) ''stat'' projectPath)),
               Spinner ''fail'' ''Error scanning project or building Docker image'']\<rparr>)"
  using assms
  by (cases "failure w projectPath") (simp_all add: scanProject_def stat_def io_defs)

text \<open>
  C3, corrected. For a path that the kernel resolves to a regular file, \<^verbatim>\<open>scanProject\<close>
  reports the condition on the spinner and in the log and then returns normally: nothing
  is raised, nothing is scanned, written or run. For a path that the kernel does not
  resolve (a missing name, or a regular file where a directory is needed, as in
  \<^verbatim>\<open>notes.txt/\<close>), the error of \<^verbatim>\<open>stat\<close> is logged and raised.
\<close>

theorem scanProject_not_a_directory:
  "(resolve w projectPath = Some (File content) \<longrightarrow>
      scanProject L projectPath projectName imageTag w =
        (Inr (), w\<lparr>trace := trace w @
           [Log (''Received projectName: '' @ projectName @ '', imageTag: '' @ imageTag),
            Spinner ''start'' ''Starting the project scan...'',
            Log (''Scanning directory: '' @ projectPath),
            Spinner ''fail'' (''Error: '' @ projectPath @ '' is not a directory''),
            Log (''Provided path is not a directory: '' @ projectPath)]\<rparr>))
   \<and> (resolve w projectPath = None \<longrightarrow>
      scanProject L projectPath projectName imageTag w =
        (Inl (sys_error (failure w projectPath) ''stat'' projectPath),
         w\<lparr>trace := trace w @
           [Log (''Received projectName: '' @ projectName @ '', imageTag: '' @ imageTag),
            Spinner ''start'' ''Starting the project scan...'',
            Log (''Scanning directory: '' @ projectPath),
            Log (''Error scanning project or building Docker image: ''
                 @ message (sys_error (failure w projectPath) ''stat'' projectPath)),
            Spinner ''fail'' ''Error scanning project or building Docker image'']\<rparr>))"
  by (intro conjI impI scanProject_file_run scanProject_stat_fails)

lemma resolve_file_tree:
  "resolve (world_of file_tree quiet) ''/notes.txt'' = Some (File ''hello'')"
  "resolve (world_of file_tree quiet) ''/notes.txt/'' = None"
  "failure (world_of file_tree quiet) ''/notes.txt/'' = NotDirectory"
  "resolve (world_of file_tree quiet) ''/missing'' = None"
  "failure (world_of file_tree quiet) ''/missing'' = NoEntry"
  "resolve (world_of file_tree quiet) ''/nope/../notes.txt'' = None"
  "failure (world_of file_tree quiet) ''/nope/../notes.txt'' = NoEntry"
  by (simp_all add: fs_eval world_of_def file_tree_def)

theorem scanProject_not_a_directory_witness:
  "resolve (world_of file_tree quiet) ''/notes.txt'' = Some (File ''hello'')
   \<and> fst (scanProject no_lib ''/notes.txt'' ''demo'' ''latest'' (world_of file_tree quiet)) = Inr ()
   \<and> fs (snd (scanProject no_lib ''/notes.txt'' ''demo'' ''latest'' (world_of file_tree quiet))) = file_tree
   \<and> commands (trace (snd (scanProject no_lib ''/notes.txt'' ''demo'' ''latest'' (world_of file_tree quiet)))) = []
   \<and> resolve (world_of file_tree quiet) ''/notes.txt/'' = None
   \<and> fst (scanProject no_lib ''/notes.txt/'' ''demo'' ''latest'' (world_of file_tree quiet))
       = Inl (ENOTDIR ''stat'' ''/notes.txt/'')
   \<and> resolve (world_of file_tree quiet) ''/missing'' = None
   \<and> fst (scanProject no_lib ''/missing'' ''demo'' ''latest'' (world_of file_tree quiet))
       = Inl (ENOENT ''stat'' ''/missing'')
   \<and> commands (trace (snd (scanProject no_lib ''/missing'' ''demo'' ''latest'' (world_of file_tree quiet)))) = []
   \<and> resolve (world_of file_tree quiet) ''/nope/../notes.txt'' = None
   \<and> fst (scanProject no_lib ''/nope/../notes.txt'' ''demo'' ''latest'' (world_of file_tree quiet))
       = Inl (ENOENT ''stat'' ''/nope/../notes.txt'')"
  using resolve_file_tree
    scanProject_not_a_directory [of "world_of file_tree quiet" "''/notes.txt''" "''hello''" no_lib "''demo''" "''latest''"]
    scanProject_not_a_directory [of "world_of file_tree quiet" "''/notes.txt/''" "''hello''" no_lib "''demo''" "''latest''"]
    scanProject_not_a_directory [of "world_of file_tree quiet" "''/missing''" "''hello''" no_lib "''demo''" "''latest''"]
    scanProject_not_a_directory [of "world_of file_tree quiet" "''/nope/../notes.txt''" "''hello''" no_lib "''demo''" "''latest''"]
  by (simp add: world_of_def)

text \<open>
  C3 as stated fails: on the path of a regular file the scan returns without an error.
\<close>

theorem scanProject_raises_counterexample:
  "resolve (world_of file_tree quiet) ''/notes.txt'' = Some (File ''hello'')
   \<and> fst (scanProject no_lib ''/notes.txt'' ''demo'' ''latest'' (world_of file_tree quiet)) = Inr ()"
  using resolve_file_tree(1)
    scanProject_file_run [OF resolve_file_tree(1), of no_lib "''demo''" "''latest''"]
  by simp




lemma generateDockerfile_existing:
  assumes "resolve w (path_join projectPath ''Dockerfile'') \<noteq> None"
  shows "generateDockerfile L projectType projectPath w =
           (Inr (path_join projectPath ''Dockerfile''),
            w\<lparr>trace := trace w @ [Log ''Existing Dockerfile found, skipping generation.'']\<rparr>)"
  using assms by (simp add: generateDockerfile_def pathExists_def io_defs Let_def)

lemma resolve_files_of:
  "(resolve w p \<noteq> None)
     = (case locate (fs w) (cwd w) p of Inl e \<Rightarrow> False | Inr loc \<Rightarrow> lookup_at loc (fs w) \<noteq> None)"
  by (simp add: resolve_def split: sum.splits)

lemma files_generateDockerfile:
  "keeps files_of
     (\<lambda>(f, c, ws). case locate f c (path_join projectPath ''Dockerfile'') of
                      Inl e \<Rightarrow> False | Inr loc \<Rightarrow> lookup_at loc f \<noteq> None)
     (generateDockerfile L projectType projectPath)"
proof -
  have "files_of (snd (generateDockerfile L projectType projectPath w)) = files_of w"
    if "case locate (fs w) (cwd w) (path_join projectPath ''Dockerfile'') of
          Inl e \<Rightarrow> False | Inr loc \<Rightarrow> lookup_at loc (fs w) \<noteq> None" for w
  proof -
    from that have "resolve w (path_join projectPath ''Dockerfile'') \<noteq> None"
      by (simp only: resolve_files_of)
    from generateDockerfile_existing [OF this] show ?thesis by (simp add: files_of_def)
  qed
  then show ?thesis by (simp add: keeps_def files_of_def)
qed

lemma files_scanProject:
  "keeps files_of
     (\<lambda>(f, c, ws). case locate f c (path_join projectPath ''Dockerfile'') of
                      Inl e \<Rightarrow> False | Inr loc \<Rightarrow> lookup_at loc f \<noteq> None)
     (scanProject L projectPath projectName imageTag)"
  unfolding scanProject_def
  by (intro keeps_rules files_prims files_scanEntireDirectory files_classifyFiles
        files_buildDockerImage files_generateDockerfile)

text \<open>
  C8. When a build file exists at the project root, \<^verbatim>\<open>generateDockerfile\<close> returns its
  path and only logs; and a scan of the project writes nothing: the file system, and so
  the build file, is the same after the scan as before.
\<close>

theorem generateDockerfile_idempotent:
  assumes "resolve w (path_join projectPath ''Dockerfile'') \<noteq> None"
  shows "generateDockerfile L projectType projectPath w =
           (Inr (path_join projectPath ''Dockerfile''),
            w\<lparr>trace := trace w @ [Log ''Existing Dockerfile found, skipping generation.'']\<rparr>)
       \<and> fs (snd (scanProject L projectPath projectName imageTag w)) = fs w
       \<and> writes (trace (snd (scanProject L projectPath projectName imageTag w))) = writes (trace w)
       \<and> resolve (snd (scanProject L projectPath projectName imageTag w)) (path_join projectPath ''Dockerfile'')
           = resolve w (path_join projectPath ''Dockerfile'')"
proof -
  from assms have "case locate (fs w) (cwd w) (path_join projectPath ''Dockerfile'') of
          Inl e \<Rightarrow> False | Inr loc \<Rightarrow> lookup_at loc (fs w) \<noteq> None"
    by (simp only: resolve_files_of)
  with files_scanProject [of projectPath L projectName imageTag]
  have k: "files_of (snd (scanProject L projectPath projectName imageTag w)) = files_of w"
    by (simp add: keeps_def files_of_def)
  then have "resolve (snd (scanProject L projectPath projectName imageTag w)) (path_join projectPath ''Dockerfile'')
           = resolve w (path_join projectPath ''Dockerfile'')"
    by (intro resolve_same) (simp_all add: files_of_def)
  then show ?thesis
    using k generateDockerfile_existing [OF assms] by (simp add: files_of_def)
qed

lemma resolve_built_tree:
  "resolve (world_of built_tree quiet) (path_join ''/proj'' ''Dockerfile'') \<noteq> None"
  by (simp add: fs_eval path_eval world_of_def built_tree_def)

theorem generateDockerfile_idempotent_witness:
  "resolve (world_of built_tree quiet) (path_join ''/proj'' ''Dockerfile'') \<noteq> None
   \<and> fst (generateDockerfile no_lib ''nodejs'' ''/proj'' (world_of built_tree quiet)) = Inr ''/proj/Dockerfile''
   \<and> fs (snd (scanProject no_lib ''/proj'' ''demo'' ''v1'' (world_of built_tree quiet))) = built_tree
   \<and> writes (trace (snd (scanProject no_lib ''/proj'' ''demo'' ''v1'' (world_of built_tree quiet)))) = []"
proof -
  have j: "path_join ''/proj'' ''Dockerfile'' = ''/proj/Dockerfile''" by (simp add: path_eval)
  show ?thesis
    using resolve_built_tree
      generateDockerfile_idempotent [OF resolve_built_tree, of no_lib "''nodejs''" "''demo''" "''v1''"]
    by (simp add: world_of_def j)
qed

lemma deployDocker_run:
  "deployDocker projectPath projectName imageTag remote user password w =
     (Inr (), w\<lparr>trace := trace w @ [Log (''Deploying with command: ''
                                          @ deployCommand projectName imageTag remote user),
                                     Exec (deployCommand projectName imageTag remote user)],
                started := Suc (started w),
                pending := pending w @ [(started w, deployCommand projectName imageTag remote user)]\<rparr>)"
  by (simp add: deployDocker_def startCommand_def io_defs Let_def)

text \<open>
  C9. \<^verbatim>\<open>deployDocker\<close> returns success as soon as it has started its command, whatever
  the shell will answer: the command is only pending then. When the command fails, the
  callback, run after the caller has its result, logs the error, and its exception ends
  in the callback.
\<close>

theorem deployDocker_never_rejects:
  "fst (deployDocker projectPath projectName imageTag remote user password w) = Inr ()
   \<and> commands (trace (snd (deployDocker projectPath projectName imageTag remote user password w)))
       = commands (trace w) @ [deployCommand projectName imageTag remote user]
   \<and> pending (snd (deployDocker projectPath projectName imageTag remote user password w))
       = pending w @ [(started w, deployCommand projectName imageTag remote user)]
   \<and> (pending w = []
        \<and> exit_code (shell w (started w) (deployCommand projectName imageTag remote user)) \<noteq> 0 \<longrightarrow>
        fst (completion (snd (deployDocker projectPath projectName imageTag remote user password w)))
          = Inl (Crash (commandFailed (deployCommand projectName imageTag remote user)
                          (shell w (started w) (deployCommand projectName imageTag remote user))))
      \<and> trace (snd (completion (snd (deployDocker projectPath projectName imageTag remote user password w))))
          = trace (snd (deployDocker projectPath projectName imageTag remote user password w))
            @ [Log (''Error deploying Docker image: ''
                    @ err (shell w (started w) (deployCommand projectName imageTag remote user)))])"
  by (simp add: deployDocker_run completion_def deployDockerCallback_def io_defs)

theorem deployDocker_never_rejects_witness:
  "pending (world_of built_tree failing) = []
   \<and> exit_code (shell (world_of built_tree failing) (started (world_of built_tree failing))
        (deployCommand ''demo'' ''v1'' None None)) \<noteq> 0
   \<and> fst (deployDocker ''/proj'' ''demo'' ''v1'' None None None (world_of built_tree failing)) = Inr ()
   \<and> commands (trace (snd (deployDocker ''/proj'' ''demo'' ''v1'' None None None (world_of built_tree failing))))
       = [''docker run -d -p 8000:8000 demo:v1'']
   \<and> fst (completion (snd (deployDocker ''/proj'' ''demo'' ''v1'' None None None (world_of built_tree failing))))
       = Inl (Crash (commandFailed ''docker run -d -p 8000:8000 demo:v1'' (failing 0 [])))
   \<and> last (trace (snd (completion (snd (deployDocker ''/proj'' ''demo'' ''v1'' None None None
                                          (world_of built_tree failing))))))
       = Log ''Error deploying Docker image: no such image''"
  using deployDocker_never_rejects [of "''/proj''" "''demo''" "''v1''" None None None "world_of built_tree failing"]
  by (simp add: world_of_def failing_def deployCommand_def dockerRun_def)

lemma firstNotRunning_None:
  "(firstNotRunning rows = None) = list_all (\<lambda>line. podStatus line = Some ''Running'') rows"
  by (induction rows) simp_all

lemma sampleTime_shift:
  "sampleTime s (Suc k) = duration (s 0) + 5000 + sampleTime (\<lambda>j. s (Suc j)) k"
  by (induction k) simp_all

lemma sampleTime_mono: "sampleTime s 0 \<le> sampleTime s k"
  by simp

lemma all_le_Suc_shift: "(\<forall>j\<le>Suc k. P j) = (P 0 \<and> (\<forall>j\<le>k. P (Suc j)))"
  by (simp only: less_Suc_eq_le [symmetric] All_less_Suc2)

lemma pollPods_success:
  "start \<le> clock w \<Longrightarrow>
   (fst (pollPods namespace timeout start w) = Inr ()) =
     (\<exists>k. clock w - start + sampleTime (podSample w namespace) k < timeout * 1000
          \<and> allRunning (podSample w namespace k)
          \<and> (\<forall>j\<le>k. exit_code (podSample w namespace j) = 0))"
proof (induction namespace timeout start w rule: pollPods.induct)
  case (1 namespace timeout startTime w)
  let ?cmd = "''kubectl get pods -n '' @ namespace"
  let ?s = "podSample w namespace"
  let ?r = "shell w (started w) ?cmd"
  let ?w1 = "w\<lparr>trace := trace w @ [Exec ?cmd], clock := clock w + duration ?r, started := Suc (started w)\<rparr>"
  have ex: "exec ?cmd w = (Inr ?r, ?w1)" by (simp add: exec_def Let_def)
  have s0: "?s 0 = ?r" by (simp add: podSample_def)
  show ?case
  proof (cases "clock w - startTime < timeout * 1000")
    case False
    then have "fst (pollPods namespace timeout startTime w) = Inl ReadinessTimeout"
      by (subst pollPods.simps) (simp add: io_defs)
    moreover have "\<not> (\<exists>k. clock w - startTime + sampleTime ?s k < timeout * 1000
          \<and> allRunning (?s k) \<and> (\<forall>j\<le>k. exit_code (?s j) = 0))"
      using False by auto
    ultimately show ?thesis by simp
  next
    case intime: True
    show ?thesis
    proof (cases "exit_code ?r = 0")
      case False
      then have "\<exists>e. fst (pollPods namespace timeout startTime w) = Inl e"
        using intime ex by (subst pollPods.simps) (simp add: io_defs)
      moreover have "\<not> (\<exists>k. clock w - startTime + sampleTime ?s k < timeout * 1000
          \<and> allRunning (?s k) \<and> (\<forall>j\<le>k. exit_code (?s j) = 0))"
        using False s0 by auto
      ultimately show ?thesis by auto
    next
      case ok: True
      show ?thesis
      proof (cases "firstNotRunning (podRows (out ?r))")
        case None
        then have "fst (pollPods namespace timeout startTime w) = Inr ()"
          using intime ok ex by (subst pollPods.simps) (simp add: io_defs)
        moreover have "allRunning (?s 0)"
          using None by (simp add: s0 allRunning_def firstNotRunning_None)
        then have "\<exists>k. clock w - startTime + sampleTime ?s k < timeout * 1000
          \<and> allRunning (?s k) \<and> (\<forall>j\<le>k. exit_code (?s j) = 0)"
          using intime ok s0 by (intro exI [of _ 0]) simp
        ultimately show ?thesis by simp
      next
        case (Some ns)
        obtain name status where ns: "ns = (name, status)" by (cases ns)
        let ?msg = "''Waiting for pod '' @ shown name @ '' to be running (current status: '' @ shown status @ '')...''"
        let ?w2 = "?w1\<lparr>trace := trace ?w1 @ [Spinner ''text'' ?msg], clock := clock ?w1 + 5000\<rparr>"
        have sl: "seq (spinner ''text'' ?msg) (sleep 5000) ?w1 = (Inr (), ?w2)"
          by (simp add: io_defs sleep_def)
        have rec: "pollPods namespace timeout startTime w = pollPods namespace timeout startTime ?w2"
          using intime ok Some ns ex sl by (subst pollPods.simps) simp
        have le: "startTime \<le> clock ?w2" using "1.prems" by simp
        have e0: "exit_code (?s 0) = 0" using ok s0 by simp
        have notready: "\<not> allRunning (?s 0)"
          using Some by (simp add: s0 allRunning_def firstNotRunning_None [symmetric])
        have shift: "podSample ?w2 namespace = (\<lambda>j. ?s (Suc j))"
          by (simp add: podSample_def fun_eq_iff)
        have clk: "clock ?w2 - startTime = clock w - startTime + duration (?s 0) + 5000"
          using "1.prems" by (simp add: s0)
        from "1.IH" [OF intime ex [symmetric] refl _ Some ns [symmetric] sl [symmetric] refl le] ok
        have IH: "(fst (pollPods namespace timeout startTime ?w2) = Inr ()) =
           (\<exists>k. clock ?w2 - startTime + sampleTime (podSample ?w2 namespace) k < timeout * 1000
              \<and> allRunning (podSample ?w2 namespace k)
              \<and> (\<forall>j\<le>k. exit_code (podSample ?w2 namespace j) = 0))"
          by simp
        have "(\<exists>k. clock w - startTime + sampleTime ?s k < timeout * 1000
                 \<and> allRunning (?s k) \<and> (\<forall>j\<le>k. exit_code (?s j) = 0))
            = (\<exists>k. clock w - startTime + sampleTime ?s (Suc k) < timeout * 1000
                 \<and> allRunning (?s (Suc k)) \<and> (\<forall>j\<le>Suc k. exit_code (?s j) = 0))"
          (is "?L = ?R")
        proof
          assume ?L
          then obtain k where k: "clock w - startTime + sampleTime ?s k < timeout * 1000"
            "allRunning (?s k)" "\<forall>j\<le>k. exit_code (?s j) = 0" by blast
          with notready obtain k' where "k = Suc k'" by (cases k) auto
          with k show ?R by blast
        next
          assume ?R then show ?L by blast
        qed
        also have "\<dots> = (\<exists>k. clock ?w2 - startTime + sampleTime (podSample ?w2 namespace) k < timeout * 1000
              \<and> allRunning (podSample ?w2 namespace k)
              \<and> (\<forall>j\<le>k. exit_code (podSample ?w2 namespace j) = 0))"
          unfolding shift clk sampleTime_shift [of ?s] all_le_Suc_shift
          using e0 by (simp add: add_ac)
        finally show ?thesis using IH rec by simp
      qed
    qed
  qed
qed

lemma pollPods_timeout:
  "start \<le> clock w \<Longrightarrow>
   \<forall>k. clock w - start + sampleTime (podSample w namespace) k < timeout * 1000 \<longrightarrow>
         exit_code (podSample w namespace k) = 0 \<and> \<not> allRunning (podSample w namespace k) \<Longrightarrow>
   fst (pollPods namespace timeout start w) = Inl ReadinessTimeout"
proof (induction namespace timeout start w rule: pollPods.induct)
  case (1 namespace timeout startTime w)
  let ?cmd = "''kubectl get pods -n '' @ namespace"
  let ?s = "podSample w namespace"
  let ?r = "shell w (started w) ?cmd"
  let ?w1 = "w\<lparr>trace := trace w @ [Exec ?cmd], clock := clock w + duration ?r, started := Suc (started w)\<rparr>"
  have ex: "exec ?cmd w = (Inr ?r, ?w1)" by (simp add: exec_def Let_def)
  have s0: "?s 0 = ?r" by (simp add: podSample_def)
  show ?case
  proof (cases "clock w - startTime < timeout * 1000")
    case False
    then show ?thesis by (subst pollPods.simps) (simp add: io_defs)
  next
    case intime: True
    with "1.prems"(2) [rule_format, of 0]
    have ok: "exit_code ?r = 0" and nr: "\<not> allRunning (?s 0)" by (simp_all add: s0)
    from nr obtain ns where Some: "firstNotRunning (podRows (out ?r)) = Some ns"
      by (auto simp: s0 allRunning_def firstNotRunning_None [symmetric])
    obtain name status where ns: "ns = (name, status)" by (cases ns)
    let ?msg = "''Waiting for pod '' @ shown name @ '' to be running (current status: '' @ shown status @ '')...''"
    let ?w2 = "?w1\<lparr>trace := trace ?w1 @ [Spinner ''text'' ?msg], clock := clock ?w1 + 5000\<rparr>"
    have sl: "seq (spinner ''text'' ?msg) (sleep 5000) ?w1 = (Inr (), ?w2)"
      by (simp add: io_defs sleep_def)
    have rec: "pollPods namespace timeout startTime w = pollPods namespace timeout startTime ?w2"
      using intime ok Some ns ex sl by (subst pollPods.simps) simp
    have le: "startTime \<le> clock ?w2" using "1.prems" by simp
    have shift: "podSample ?w2 namespace = (\<lambda>j. ?s (Suc j))"
      by (simp add: podSample_def fun_eq_iff)
    have clk: "clock ?w2 - startTime = clock w - startTime + duration (?s 0) + 5000"
      using "1.prems" by (simp add: s0)
    have all: "\<forall>k. clock ?w2 - startTime + sampleTime (podSample ?w2 namespace) k < timeout * 1000 \<longrightarrow>
         exit_code (podSample ?w2 namespace k) = 0 \<and> \<not> allRunning (podSample ?w2 namespace k)"
    proof (intro allI impI)
      fix k
      assume "clock ?w2 - startTime + sampleTime (podSample ?w2 namespace) k < timeout * 1000"
      then have "clock w - startTime + sampleTime ?s (Suc k) < timeout * 1000"
        unfolding shift clk sampleTime_shift [of ?s k] by (simp add: add_ac)
      from "1.prems"(2) [rule_format, OF this]
      show "exit_code (podSample ?w2 namespace k) = 0 \<and> \<not> allRunning (podSample ?w2 namespace k)"
        unfolding shift by simp
    qed
    from "1.IH" [OF intime ex [symmetric] refl _ Some ns [symmetric] sl [symmetric] refl le all] ok
    show ?thesis using rec by simp
  qed
qed

lemma waitForPodsReady_poll:
  "waitForPodsReady namespace timeout w =
     pollPods namespace timeout (clock w)
       (w\<lparr>trace := trace w @ [Spinner ''start'' ''Waiting for pods to become ready...'']\<rparr>)"
  by (simp add: waitForPodsReady_def io_defs)

text \<open>
  C4. The readiness poll returns success exactly when some sample that the loop asks for
  before the deadline (less than \<open>timeout\<close> seconds after the start) has every row
  \<^verbatim>\<open>Running\<close>, the queries up to it having succeeded; and it fails with the timeout
  error when every sample asked for before the deadline has a row that is not
  \<^verbatim>\<open>Running\<close>. The loop always ends.
\<close>

theorem waitForPodsReady_outcome:
  "(fst (waitForPodsReady namespace timeout w) = Inr ()
      \<longleftrightarrow> (\<exists>k. sampleTime (podSample w namespace) k < timeout * 1000
               \<and> allRunning (podSample w namespace k)
               \<and> (\<forall>j\<le>k. exit_code (podSample w namespace j) = 0)))
   \<and> ((\<forall>k. sampleTime (podSample w namespace) k < timeout * 1000 \<longrightarrow>
             exit_code (podSample w namespace k) = 0 \<and> \<not> allRunning (podSample w namespace k))
        \<longrightarrow> fst (waitForPodsReady namespace timeout w) = Inl ReadinessTimeout)"
proof -
  let ?w = "w\<lparr>trace := trace w @ [Spinner ''start'' ''Waiting for pods to become ready...'']\<rparr>"
  have s: "podSample ?w namespace = podSample w namespace"
    by (simp add: podSample_def fun_eq_iff)
  have c: "clock w \<le> clock ?w" "clock ?w - clock w = 0" by simp_all
  show ?thesis
    unfolding waitForPodsReady_poll
    using pollPods_success [OF c(1), of namespace timeout]
          pollPods_timeout [OF c(1), of namespace timeout]
    unfolding s c(2) by simp
qed

lemmas pod_eval = allRunning_def podRows_def podStatus_def at_index_def text_lines_def trim_def
  isSpace_def pods_mixed_def pods_ready_def pods_header_def

lemma ready_sample: "allRunning (ready_on_second (Suc k) c)"
  by (simp add: ready_on_second_def pod_eval)

lemma mixed_sample: "\<not> allRunning (never_ready k c)" "\<not> allRunning (ready_on_second 0 c)"
  by (simp_all add: never_ready_def ready_on_second_def pod_eval)

theorem waitForPodsReady_outcome_witness:
  "sampleTime (podSample (world_of built_tree ready_on_second) ''default'') 1 < 300 * 1000
   \<and> allRunning (podSample (world_of built_tree ready_on_second) ''default'' 1)
   \<and> \<not> allRunning (podSample (world_of built_tree ready_on_second) ''default'' 0)
   \<and> exit_code (podSample (world_of built_tree ready_on_second) ''default'' 0) = 0
   \<and> exit_code (podSample (world_of built_tree ready_on_second) ''default'' 1) = 0
   \<and> fst (waitForPodsReady ''default'' 300 (world_of built_tree ready_on_second)) = Inr ()
   \<and> \<not> allRunning (podSample (world_of built_tree never_ready) ''default'' 0)
   \<and> \<not> allRunning (podSample (world_of built_tree never_ready) ''default'' 1)
   \<and> fst (waitForPodsReady ''default'' 10 (world_of built_tree never_ready)) = Inl ReadinessTimeout"
proof -
  let ?W1 = "world_of built_tree ready_on_second"
  let ?W2 = "world_of built_tree never_ready"
  have s1: "podSample ?W1 ''default'' k = ready_on_second k ''kubectl get pods -n default''" for k
    by (simp add: podSample_def world_of_def)
  have s2: "podSample ?W2 ''default'' k = never_ready k ''kubectl get pods -n default''" for k
    by (simp add: podSample_def world_of_def)
  have e1: "exit_code (podSample ?W1 ''default'' k) = 0" for k
    by (simp add: s1 ready_on_second_def)
  have t1: "sampleTime (podSample ?W1 ''default'') 1 < 300 * 1000"
    by (simp add: s1 ready_on_second_def)
  have a1: "allRunning (podSample ?W1 ''default'' 1)"
    using ready_sample [of 0] by (simp add: s1)
  have "\<exists>k. sampleTime (podSample ?W1 ''default'') k < 300 * 1000
           \<and> allRunning (podSample ?W1 ''default'' k)
           \<and> (\<forall>j\<le>k. exit_code (podSample ?W1 ''default'' j) = 0)"
    using t1 a1 e1 by (intro exI [of _ 1]) blast
  with waitForPodsReady_outcome [of "''default''" 300 ?W1]
  have ok: "fst (waitForPodsReady ''default'' 300 ?W1) = Inr ()" by blast
  have "\<forall>k. sampleTime (podSample ?W2 ''default'') k < 10 * 1000 \<longrightarrow>
          exit_code (podSample ?W2 ''default'' k) = 0 \<and> \<not> allRunning (podSample ?W2 ''default'' k)"
    by (simp add: s2 mixed_sample) (simp add: never_ready_def)
  with waitForPodsReady_outcome [of "''default''" 10 ?W2]
  have to: "fst (waitForPodsReady ''default'' 10 ?W2) = Inl ReadinessTimeout" by blast
  show ?thesis
    using ok to t1 a1 e1 [of 0] e1 [of 1] mixed_sample
    by (simp add: s1 s2)
qed

subsection \<open>Texts\<close>

lemma includes_sublist: "includes_str s pat = sublist pat s"
  by (induction s) (auto simp: sublist_Cons_right)

lemma replace_absent: "\<not> includes_str s pat \<Longrightarrow> replace s pat rep = s"
  by (induction s) auto

lemma prefix_butlast_app: "prefix (butlast p) (p @ b)"
  by (cases p rule: rev_cases) simp_all

lemma replace_first:
  assumes "includes_str s pat" and "pat \<noteq> []"
  shows "\<exists>a b. s = a @ pat @ b \<and> replace s pat rep = a @ rep @ b
            \<and> \<not> sublist pat (a @ butlast pat) \<and> afterFirst s pat = Some (tl pat @ b)"
  using assms
proof (induction s)
  case Nil then show ?case by simp
next
  case (Cons c cs)
  show ?case
  proof (cases "prefix pat (c # cs)")
    case True
    then obtain b where b: "c # cs = pat @ b" by (auto simp: prefix_def)
    have short: "\<not> sublist pat (butlast pat)"
      using Cons.prems(2) by (cases pat) (auto dest!: sublist_length_le)
    have tl: "cs = tl pat @ b" using b Cons.prems(2) by (cases pat) auto
    have "drop (length pat) (c # cs) = b" unfolding b by simp
    then have rp: "replace (c # cs) pat rep = rep @ b"
      using True by simp
    have af: "afterFirst (c # cs) pat = Some (tl pat @ b)"
      using True tl by simp
    from b rp short af show ?thesis
      by (intro exI [of _ "[]"] exI [of _ b]) (simp only: append_Nil simp_thms)
  next
    case False
    with Cons.prems have "includes_str cs pat" by simp
    from Cons.IH [OF this Cons.prems(2)] obtain a b where
      cs: "cs = a @ pat @ b" and r: "replace cs pat rep = a @ rep @ b"
      and early: "\<not> sublist pat (a @ butlast pat)"
      and af: "afterFirst cs pat = Some (tl pat @ b)" by blast
    have "\<not> prefix pat (c # a @ butlast pat)"
    proof
      assume "prefix pat (c # a @ butlast pat)"
      moreover have "prefix (c # a @ butlast pat) (c # cs)"
        unfolding cs by (simp add: prefix_butlast_app)
      ultimately show False using False by (meson prefix_order.trans)
    qed
    with early have "\<not> sublist pat ((c # a) @ butlast pat)"
      by (simp add: sublist_Cons_right)
    with False cs r af show ?thesis
      by (intro exI [of _ "c # a"] exI [of _ b]) simp
  qed
qed

lemma sublist_avoid:
  assumes "sublist p (xs @ c # ys)" and "c \<notin> set p"
  shows "sublist p xs \<or> sublist p ys"
proof -
  from assms(1) obtain u v where uv: "xs @ c # ys = u @ p @ v" by (auto simp: sublist_def)
  then show ?thesis
  proof (cases "length (u @ p) \<le> length xs")
    case True
    from uv have "take (length (u @ p)) (xs @ c # ys) = take (length (u @ p)) ((u @ p) @ v)"
      by simp
    with True have "take (length (u @ p)) xs = u @ p" by simp
    then have "xs = u @ p @ drop (length (u @ p)) xs"
      by (metis append_take_drop_id append.assoc)
    then have "sublist p xs" unfolding sublist_def by blast
    then show ?thesis ..
  next
    case False
    then have len: "length xs < length (u @ p)" by simp
    show ?thesis
    proof (cases "length xs < length u")
      case True
      with uv have "drop (Suc (length xs)) (xs @ c # ys) = drop (Suc (length xs)) (u @ p @ v)" by simp
      then have "ys = drop (Suc (length xs)) u @ p @ v" using True by simp
      then have "sublist p ys" by (auto simp: sublist_def)
      then show ?thesis ..
    next
      case False
      with len have i: "length u \<le> length xs" "length xs - length u < length p" by auto
      from uv have "(xs @ c # ys) ! length xs = (u @ p @ v) ! length xs" by simp
      then have "c = p ! (length xs - length u)"
        using i by (simp add: nth_append)
      with i assms(2) show ?thesis by simp
    qed
  qed
qed

lemma sublist_extend:
  assumes "sublist p ys"
  shows "sublist p (ps @ ys @ ss)"
proof -
  from assms obtain u v where "ys = u @ p @ v" by (auto simp: sublist_def)
  then have "ps @ ys @ ss = (ps @ u) @ p @ (v @ ss)" by simp
  then show ?thesis unfolding sublist_def by blast
qed

lemma sublist_left: "sublist p ys \<Longrightarrow> sublist p (ps @ ys)"
  using sublist_extend [of p ys ps "[]"] by simp

lemma sublist_right: "sublist p ys \<Longrightarrow> sublist p (ys @ ss)"
  using sublist_extend [of p ys "[]" ss] by simp

lemma sublist_skip:
  assumes "sublist p (m @ b)" and "p \<noteq> []" and "hd p \<notin> set m"
  shows "sublist p b"
  using assms
proof (induction m)
  case Nil then show ?case by simp
next
  case (Cons x m)
  from Cons.prems(2,3) have "\<not> prefix p (x # m @ b)"
    by (cases p) auto
  with Cons.prems(1) have "sublist p (m @ b)" by (simp add: sublist_Cons_right)
  with Cons.IH Cons.prems(2,3) show ?case by simp
qed

lemma expose_replaced:
  assumes "atMostOnce t EXPOSE_3000"
  shows "\<not> includes_str (replace t EXPOSE_3000 EXPOSE_8000) EXPOSE_3000"
proof (cases "includes_str t EXPOSE_3000")
  case False
  then show ?thesis by (simp add: replace_absent)
next
  case True
  have ne: "EXPOSE_3000 \<noteq> []" by (simp add: EXPOSE_3000_def)
  from replace_first [OF True ne, of EXPOSE_8000] obtain a b where
    t: "t = a @ EXPOSE_3000 @ b" and r: "replace t EXPOSE_3000 EXPOSE_8000 = a @ EXPOSE_8000 @ b"
    and early: "\<not> sublist EXPOSE_3000 (a @ butlast EXPOSE_3000)"
    and af: "afterFirst t EXPOSE_3000 = Some (tl EXPOSE_3000 @ b)" by blast
  from assms af have late: "\<not> sublist EXPOSE_3000 (tl EXPOSE_3000 @ b)"
    by (simp add: atMostOnce_def includes_sublist)
  have shape: "a @ EXPOSE_8000 @ b = (a @ ''EXPOSE '') @ CHR ''8'' # (''000'' @ b)"
    by (simp add: EXPOSE_8000_def)
  have c8: "CHR ''8'' \<notin> set EXPOSE_3000" by (simp add: EXPOSE_3000_def)
  have "\<not> sublist EXPOSE_3000 (a @ EXPOSE_8000 @ b)"
  proof
    assume "sublist EXPOSE_3000 (a @ EXPOSE_8000 @ b)"
    then have "sublist EXPOSE_3000 (a @ ''EXPOSE '') \<or> sublist EXPOSE_3000 (''000'' @ b)"
      unfolding shape using c8 by (rule sublist_avoid)
    then show False
    proof
      assume "sublist EXPOSE_3000 (a @ ''EXPOSE '')"
      then have "sublist EXPOSE_3000 ((a @ ''EXPOSE '') @ ''300'')" by (rule sublist_right)
      with early show False by (simp add: EXPOSE_3000_def)
    next
      assume "sublist EXPOSE_3000 (''000'' @ b)"
      then have "sublist EXPOSE_3000 (''XPOSE 3'' @ ''000'' @ b)" by (rule sublist_left)
      with late show False by (simp add: EXPOSE_3000_def)
    qed
  qed
  then show ?thesis by (simp add: r includes_sublist)
qed

lemma cmd_replaced:
  assumes "\<not> includes_str y EXPOSE_3000"
  shows "\<not> includes_str (replace y CMD_npm_start CMD_node_index) EXPOSE_3000"
proof (cases "includes_str y CMD_npm_start")
  case False
  with assms show ?thesis by (simp add: replace_absent)
next
  case True
  have ne: "CMD_npm_start \<noteq> []" by (simp add: CMD_npm_start_def)
  from replace_first [OF True ne, of CMD_node_index] obtain a b where
    y: "y = a @ CMD_npm_start @ b" and r: "replace y CMD_npm_start CMD_node_index = a @ CMD_node_index @ b"
    by blast
  from assms have na: "\<not> sublist EXPOSE_3000 a" and nb: "\<not> sublist EXPOSE_3000 b"
    unfolding y includes_sublist
    by (auto dest: sublist_extend [of _ a "[]" "CMD_npm_start @ b"] sublist_left [of _ b "a @ CMD_npm_start"])
  have cC: "CHR ''C'' \<notin> set EXPOSE_3000" by (simp add: EXPOSE_3000_def)
  have "\<not> sublist EXPOSE_3000 (a @ CMD_node_index @ b)"
  proof
    assume "sublist EXPOSE_3000 (a @ CMD_node_index @ b)"
    then have "sublist EXPOSE_3000 (a @ CHR ''C'' # (tl CMD_node_index @ b))"
      by (simp add: CMD_node_index_def)
    then have "sublist EXPOSE_3000 a \<or> sublist EXPOSE_3000 (tl CMD_node_index @ b)"
      using cC by (rule sublist_avoid)
    with na have "sublist EXPOSE_3000 (tl CMD_node_index @ b)" by simp
    then have "sublist EXPOSE_3000 b"
      by (rule sublist_skip) (simp_all add: EXPOSE_3000_def CMD_node_index_def)
    with nb show False by simp
  qed
  then show ?thesis by (simp add: r includes_sublist)
qed

lemma second_expose_identity:
  assumes "atMostOnce t EXPOSE_3000"
  shows "replace (replace (replace t EXPOSE_3000 EXPOSE_8000) CMD_npm_start CMD_node_index)
           EXPOSE_3000 EXPOSE_8000
         = replace (replace t EXPOSE_3000 EXPOSE_8000) CMD_npm_start CMD_node_index"
  by (intro replace_absent cmd_replaced expose_replaced assms)

lemma plain_names [simp]:
  "plainName ''Dockerfile''" "plainName ''package.json''" "plainName ''index.js''"
  "plainName ''web-deployment.yaml''"
  by (simp_all add: plainName_def)

lemma generateDockerfile_express_run:
  assumes dir: "resolve w projectPath = Some (Dir es)"
      and nodocker: "map_of es ''Dockerfile'' = None"
      and pkg: "map_of es ''package.json'' = Some (File packageJson)"
      and parsed: "JSON_parse L packageJson = Inr (JObj kvs)"
      and deps: "map_of kvs ''dependencies'' = Some (JObj ds)"
      and express: "map_of ds ''express'' = Some version" "truthy version"
      and idx: "map_of es ''index.js'' = Some (File indexJs)"
      and listen: "includes_str indexJs ''app.listen(8000)''"
      and tmpl: "resolve w (path_join (moddir w) ''../templates/nodejs.Dockerfile'') = Some (File template)"
      and once: "atMostOnce template EXPOSE_3000"
  shows "\<exists>root'. generateDockerfile L ''nodejs'' projectPath w =
           (Inr (path_join projectPath ''Dockerfile''),
            w\<lparr>fs := root',
              trace := trace w @
                [Log ''Generating Dockerfile for project type: nodejs'',
                 Log ''Analyzing Node.js project...'',
                 Log (''Dependencies found: '' @ JSON_stringify L (JObj ds)),
                 Log ''Port 8000 detected in index.js.'',
                 Log ''Writing the customized Dockerfile...'',
                 Write (path_join projectPath ''Dockerfile'')
                   (trim (replace (replace template EXPOSE_3000 EXPOSE_8000) CMD_npm_start CMD_node_index)),
                 Log (''Dockerfile generated at '' @ path_join projectPath ''Dockerfile'')]\<rparr>)
         \<and> resolve (w\<lparr>fs := root'\<rparr>) (path_join projectPath ''Dockerfile'')
             = Some (File (trim (replace (replace template EXPOSE_3000 EXPOSE_8000)
                                   CMD_npm_start CMD_node_index)))"
proof -
  let ?X = "replace (replace template EXPOSE_3000 EXPOSE_8000) CMD_npm_start CMD_node_index"
  let ?w5 = "w\<lparr>trace := trace w @
                [Log ''Generating Dockerfile for project type: nodejs'',
                 Log ''Analyzing Node.js project...'',
                 Log (''Dependencies found: '' @ JSON_stringify L (JObj ds)),
                 Log ''Port 8000 detected in index.js.'',
                 Log ''Writing the customized Dockerfile...'']\<rparr>"
  have dir5: "resolve ?w5 projectPath = Some (Dir es)" using dir by simp
  from writeFile_join [OF dir5 plain_names(1), of "trim ?X"] nodocker
  obtain root' where
    wr: "writeFile (path_join projectPath ''Dockerfile'') (trim ?X) ?w5 =
           (Inr (), ?w5\<lparr>fs := root', trace := trace ?w5 @ [Write (path_join projectPath ''Dockerfile'') (trim ?X)]\<rparr>)"
    and l: "resolve (?w5\<lparr>fs := root'\<rparr>) (path_join projectPath ''Dockerfile'') = Some (File (trim ?X))"
    by auto
  have found: "resolve w (path_join projectPath ''Dockerfile'') = None"
    "resolve w (path_join projectPath ''package.json'') = Some (File packageJson)"
    "resolve w (path_join projectPath ''index.js'') = Some (File indexJs)"
    using nodocker pkg idx by (simp_all add: resolve_join [OF dir])
  have "generateDockerfile L ''nodejs'' projectPath w =
           (Inr (path_join projectPath ''Dockerfile''),
            w\<lparr>fs := root',
              trace := trace w @
                [Log ''Generating Dockerfile for project type: nodejs'',
                 Log ''Analyzing Node.js project...'',
                 Log (''Dependencies found: '' @ JSON_stringify L (JObj ds)),
                 Log ''Port 8000 detected in index.js.'',
                 Log ''Writing the customized Dockerfile...'',
                 Write (path_join projectPath ''Dockerfile'') (trim ?X),
                 Log (''Dockerfile generated at '' @ path_join projectPath ''Dockerfile'')]\<rparr>)"
    using wr found parsed deps express listen tmpl
    by (simp add: generateDockerfile_def analyzeNodeProject_def applyDependencies_def
          applyIndexJs_def moduleDir_def readFile_def pathExists_def io_defs Let_def
          second_expose_identity [OF once])
  moreover have "resolve (w\<lparr>fs := root'\<rparr>) (path_join projectPath ''Dockerfile'')
                   = resolve (?w5\<lparr>fs := root'\<rparr>) (path_join projectPath ''Dockerfile'')"
    by (intro resolve_same) simp_all
  ultimately show ?thesis using l by auto
qed

text \<open>
  C7. For a nodejs project without a build file whose \<^verbatim>\<open>package.json\<close> declares a
  dependency on express and whose \<^verbatim>\<open>index.js\<close> contains \<^verbatim>\<open>app.listen(8000)\<close>, the
  file written is the template with the first \<^verbatim>\<open>EXPOSE 3000\<close> replaced by
  \<^verbatim>\<open>EXPOSE 8000\<close> and the start command replaced, trimmed; when the template has
  \<^verbatim>\<open>EXPOSE 3000\<close> at most once, the second substitution finds nothing to replace.
\<close>

theorem generateDockerfile_express_listen:
  assumes "resolve w projectPath = Some (Dir es)"
      and "map_of es ''Dockerfile'' = None"
      and "map_of es ''package.json'' = Some (File packageJson)"
      and "JSON_parse L packageJson = Inr (JObj kvs)"
      and "map_of kvs ''dependencies'' = Some (JObj ds)"
      and "map_of ds ''express'' = Some version" and "truthy version"
      and "map_of es ''index.js'' = Some (File indexJs)"
      and "includes_str indexJs ''app.listen(8000)''"
      and "resolve w (path_join (moddir w) ''../templates/nodejs.Dockerfile'') = Some (File template)"
      and "atMostOnce template EXPOSE_3000"
  shows "fst (generateDockerfile L ''nodejs'' projectPath w) = Inr (path_join projectPath ''Dockerfile'')
       \<and> writes (trace (snd (generateDockerfile L ''nodejs'' projectPath w)))
           = writes (trace w) @
             [(path_join projectPath ''Dockerfile'',
               trim (replace (replace template EXPOSE_3000 EXPOSE_8000) CMD_npm_start CMD_node_index))]
       \<and> resolve (snd (generateDockerfile L ''nodejs'' projectPath w)) (path_join projectPath ''Dockerfile'')
           = Some (File (trim (replace (replace template EXPOSE_3000 EXPOSE_8000)
                                 CMD_npm_start CMD_node_index)))
       \<and> replace (replace (replace template EXPOSE_3000 EXPOSE_8000) CMD_npm_start CMD_node_index)
            EXPOSE_3000 EXPOSE_8000
           = replace (replace template EXPOSE_3000 EXPOSE_8000) CMD_npm_start CMD_node_index"
proof -
  from generateDockerfile_express_run [OF assms] obtain root' where
    run: "generateDockerfile L ''nodejs'' projectPath w =
           (Inr (path_join projectPath ''Dockerfile''),
            w\<lparr>fs := root',
              trace := trace w @
                [Log ''Generating Dockerfile for project type: nodejs'',
                 Log ''Analyzing Node.js project...'',
                 Log (''Dependencies found: '' @ JSON_stringify L (JObj ds)),
                 Log ''Port 8000 detected in index.js.'',
                 Log ''Writing the customized Dockerfile...'',
                 Write (path_join projectPath ''Dockerfile'')
                   (trim (replace (replace template EXPOSE_3000 EXPOSE_8000) CMD_npm_start CMD_node_index)),
                 Log (''Dockerfile generated at '' @ path_join projectPath ''Dockerfile'')]\<rparr>)"
    and l: "resolve (w\<lparr>fs := root'\<rparr>) (path_join projectPath ''Dockerfile'')
             = Some (File (trim (replace (replace template EXPOSE_3000 EXPOSE_8000)
                                   CMD_npm_start CMD_node_index)))"
    by blast
  have "resolve (snd (generateDockerfile L ''nodejs'' projectPath w)) (path_join projectPath ''Dockerfile'')
      = resolve (w\<lparr>fs := root'\<rparr>) (path_join projectPath ''Dockerfile'')"
    unfolding run by (rule resolve_same) simp_all
  with l show ?thesis
    using second_expose_identity [OF assms(11)] by (simp add: run)
qed

lemma express_join:
  "path_join ''/proj'' ''Dockerfile'' = ''/proj/Dockerfile''"
  "path_join ''/opt/dockerizer/src'' ''../templates/nodejs.Dockerfile''
     = ''/opt/dockerizer/templates/nodejs.Dockerfile''"
  by (simp_all add: path_eval)

lemma express_resolve:
  "resolve (world_of express_tree quiet) ''/proj'' = Some (Dir express_entries)"
  "resolve (world_of express_tree quiet)
     (path_join (moddir (world_of express_tree quiet)) ''../templates/nodejs.Dockerfile'')
     = Some (File sample_template)"
  by (simp_all add: fs_eval world_of_def express_tree_def express_join)

lemma sample_template_once: "atMostOnce sample_template EXPOSE_3000"
  by (simp add: atMostOnce_def sample_template_def text_lines_def EXPOSE_3000_def)

lemma sample_template_built:
  \<open>trim (replace (replace sample_template EXPOSE_3000 EXPOSE_8000) CMD_npm_start CMD_node_index)
     = ''FROM node:18'' @ [CHR 0x0A] @ ''WORKDIR /app'' @ [CHR 0x0A] @ ''COPY . .'' @ [CHR 0x0A]
       @ ''RUN npm install'' @ [CHR 0x0A] @ ''EXPOSE 8000'' @ [CHR 0x0A] @ ''CMD ["node", "index.js"]''\<close>
  by (simp add: sample_template_def text_lines_def EXPOSE_3000_def EXPOSE_8000_def
        CMD_npm_start_def CMD_node_index_def trim_def isSpace_def)

theorem generateDockerfile_express_listen_witness:
  \<open>resolve (world_of express_tree quiet) ''/proj'' = Some (Dir express_entries)
   \<and> map_of express_entries ''Dockerfile'' = None
   \<and> includes_str ''app.listen(8000)'' ''app.listen(8000)''
   \<and> atMostOnce sample_template EXPOSE_3000
   \<and> fst (generateDockerfile express_lib ''nodejs'' ''/proj'' (world_of express_tree quiet))
       = Inr ''/proj/Dockerfile''
   \<and> writes (trace (snd (generateDockerfile express_lib ''nodejs'' ''/proj'' (world_of express_tree quiet))))
       = [(''/proj/Dockerfile'',
           ''FROM node:18'' @ [CHR 0x0A] @ ''WORKDIR /app'' @ [CHR 0x0A] @ ''COPY . .'' @ [CHR 0x0A]
           @ ''RUN npm install'' @ [CHR 0x0A] @ ''EXPOSE 8000'' @ [CHR 0x0A] @ ''CMD ["node", "index.js"]'')]\<close>
proof -
  have a: "map_of express_entries ''Dockerfile'' = None"
    \<open>map_of express_entries ''package.json'' = Some (File ''{"dependencies":{"express":"4.x"}}'')\<close>
    "map_of express_entries ''index.js'' = Some (File ''app.listen(8000)'')"
    by (simp_all add: express_entries_def)
  have b: \<open>JSON_parse express_lib ''{"dependencies":{"express":"4.x"}}''
             = Inr (JObj [(''dependencies'', JObj [(''express'', JStr ''4.x'')])])\<close>
    by (simp add: express_lib_def)
  have c: "map_of [(''dependencies'', JObj [(''express'', JStr ''4.x'')])] ''dependencies''
             = Some (JObj [(''express'', JStr ''4.x'')])"
    "map_of [(''express'', JStr ''4.x'')] ''express'' = Some (JStr ''4.x'')" "truthy (JStr ''4.x'')"
    by simp_all
  have d: "includes_str ''app.listen(8000)'' ''app.listen(8000)''" by simp
  from generateDockerfile_express_listen
         [OF express_resolve(1) a(1) a(2) b c(1) c(2) c(3) a(3) d express_resolve(2) sample_template_once]
  show ?thesis
    using express_resolve(1) a(1) d sample_template_once
    by (simp add: sample_template_built world_of_def express_join)
qed

subsection \<open>What a call adds to the trace\<close>

lemma stepsI:
  assumes "\<And>w. \<exists>evs. trace (snd (m w)) = trace w @ evs \<and> list_all Q evs"
  shows "steps Q m"
  using assms by (simp add: steps_def)

lemma steps_ret: "steps Q (ret x)"
  by (simp add: steps_def ret_def)

lemma steps_throw: "steps Q (throw e)"
  by (simp add: steps_def throw_def)

lemma steps_of_result: "steps Q (of_result r)"
  by (simp add: steps_def of_result_def)

lemma steps_bind:
  assumes "steps Q m" and "\<And>x. steps Q (f x)"
  shows "steps Q (bind m f)"
proof (rule stepsI)
  fix w
  from assms(1) obtain e1 where 1: "trace (snd (m w)) = trace w @ e1" "list_all Q e1"
    by (auto simp: steps_def)
  show "\<exists>evs. trace (snd (bind m f w)) = trace w @ evs \<and> list_all Q evs"
  proof (cases "m w")
    case (Pair r w')
    show ?thesis
    proof (cases r)
      case (Inl e)
      with Pair 1 show ?thesis by (auto simp: bind_def)
    next
      case (Inr x)
      from assms(2) [of x] obtain e2 where "trace (snd (f x w')) = trace w' @ e2" "list_all Q e2"
        by (auto simp: steps_def)
      with Pair Inr 1 show ?thesis
        by (intro exI [of _ "e1 @ e2"]) (simp add: bind_def)
    qed
  qed
qed

lemma steps_seq:
  assumes "steps Q m" and "steps Q n"
  shows "steps Q (seq m n)"
  unfolding seq_def using assms by (intro steps_bind) simp_all

lemma steps_catch:
  assumes "steps Q m" and "\<And>e. steps Q (h e)"
  shows "steps Q (catch m h)"
proof (rule stepsI)
  fix w
  from assms(1) obtain e1 where 1: "trace (snd (m w)) = trace w @ e1" "list_all Q e1"
    by (auto simp: steps_def)
  show "\<exists>evs. trace (snd (catch m h w)) = trace w @ evs \<and> list_all Q evs"
  proof (cases "m w")
    case (Pair r w')
    show ?thesis
    proof (cases r)
      case (Inr x)
      with Pair 1 show ?thesis by (auto simp: catch_def)
    next
      case (Inl e)
      from assms(2) [of e] obtain e2 where 2: "trace (snd (h e w')) = trace w' @ e2" "list_all Q e2"
        by (auto simp: steps_def)
      show ?thesis
      proof (cases "\<exists>e'. e = Crash e'")
        case True
        with Pair Inl 1 show ?thesis by (auto simp: catch_def)
      next
        case False
        then have "catch m h w = h e w'" using Pair Inl by (cases e) (simp_all add: catch_def)
        with Pair 1 2 show ?thesis
          by (intro exI [of _ "e1 @ e2"]) simp
      qed
    qed
  qed
qed

lemma steps_if:
  assumes "c \<Longrightarrow> steps Q a" and "\<not> c \<Longrightarrow> steps Q b"
  shows "steps Q (if c then a else b)"
  using assms by simp

lemma steps_case_prod:
  assumes "\<And>a b. steps Q (f a b)"
  shows "steps Q (case x of (a, b) \<Rightarrow> f a b)"
  using assms by (cases x) simp

lemma steps_case_option:
  assumes "steps Q a" and "\<And>x. steps Q (f x)"
  shows "steps Q (case v of None \<Rightarrow> a | Some x \<Rightarrow> f x)"
  using assms by (cases v) simp_all

lemma steps_Let:
  assumes "\<And>x. steps Q (f x)"
  shows "steps Q (Let v f)"
  using assms by (simp add: Let_def)

lemmas steps_rules = steps_ret steps_throw steps_of_result steps_bind steps_seq steps_catch steps_if
  steps_case_prod steps_case_option steps_Let

lemma steps_emit: "Q e \<Longrightarrow> steps Q (emit e)"
  by (rule stepsI) (simp add: emit_def)

lemma steps_log: "Q (Log s) \<Longrightarrow> steps Q (log s)"
  by (simp add: log_def steps_emit)

lemma steps_spinner: "Q (Spinner k s) \<Longrightarrow> steps Q (spinner k s)"
  by (simp add: spinner_def steps_emit)

lemma steps_exec: "Q (Exec c) \<Longrightarrow> steps Q (exec c)"
  by (rule stepsI) (simp add: exec_def Let_def)

lemma steps_writeFile: "Q (Write p c) \<Longrightarrow> steps Q (writeFile p c)"
  by (rule stepsI) (simp add: writeFile_def split: sum.splits)

lemma steps_silent:
  "steps Q (stat p)" "steps Q (readdir p)" "steps Q (readFile p)" "steps Q (pathExists p)"
  "steps Q moduleDir" "steps Q processCwd" "steps Q (path_resolve p)" "steps Q (sleep n)"
  by (rule stepsI; simp add: stat_def readdir_def readFile_def pathExists_def moduleDir_def
        processCwd_def path_resolve_def sleep_def Let_def split: option.splits node.splits)+

lemmas steps_prims = steps_emit steps_log steps_spinner steps_exec steps_writeFile steps_silent

lemma steps_pollPods:
  "steps (\<lambda>e. e \<noteq> fabricating) (pollPods namespace timeout start)"
proof (rule stepsI)
  fix w
  show "\<exists>evs. trace (snd (pollPods namespace timeout start w)) = trace w @ evs \<and> list_all (\<lambda>e. e \<noteq> fabricating) evs"
  proof (induction namespace timeout start w rule: pollPods.induct)
    case (1 namespace timeout startTime w)
    let ?cmd = "''kubectl get pods -n '' @ namespace"
    let ?r = "shell w (started w) ?cmd"
    let ?w1 = "w\<lparr>trace := trace w @ [Exec ?cmd], clock := clock w + duration ?r, started := Suc (started w)\<rparr>"
    have ex: "exec ?cmd w = (Inr ?r, ?w1)" by (simp add: exec_def Let_def)
    show ?case
    proof (cases "clock w - startTime < timeout * 1000")
      case False
      then show ?thesis by (subst pollPods.simps) (simp add: io_defs fabricating_def)
    next
      case intime: True
      show ?thesis
      proof (cases "exit_code ?r = 0")
        case False
        then show ?thesis using intime ex by (subst pollPods.simps) (simp add: io_defs fabricating_def)
      next
        case ok: True
        show ?thesis
        proof (cases "firstNotRunning (podRows (out ?r))")
          case None
          then show ?thesis using intime ok ex by (subst pollPods.simps) (simp add: io_defs fabricating_def)
        next
          case (Some ns)
          obtain name status where ns: "ns = (name, status)" by (cases ns)
          let ?msg = "''Waiting for pod '' @ shown name @ '' to be running (current status: '' @ shown status @ '')...''"
          let ?w2 = "?w1\<lparr>trace := trace ?w1 @ [Spinner ''text'' ?msg], clock := clock ?w1 + 5000\<rparr>"
          have sl: "seq (spinner ''text'' ?msg) (sleep 5000) ?w1 = (Inr (), ?w2)"
            by (simp add: io_defs sleep_def)
          have rec: "pollPods namespace timeout startTime w = pollPods namespace timeout startTime ?w2"
            using intime ok Some ns ex sl by (subst pollPods.simps) simp
          from "1.IH" [OF intime ex [symmetric] refl _ Some ns [symmetric] sl [symmetric] refl] ok
          obtain evs where "trace (snd (pollPods namespace timeout startTime ?w2)) = trace ?w2 @ evs"
            "list_all (\<lambda>e. e \<noteq> fabricating) evs" by auto
          then show ?thesis unfolding rec
            by (intro exI [of _ "[Exec ?cmd, Spinner ''text'' ?msg] @ evs"]) (simp add: fabricating_def)
        qed
      qed
    qed
  qed
qed

lemma files_pollPods: "keeps files_of P (pollPods namespace timeout start)"
  unfolding keeps_def
proof (intro allI impI)
  fix w
  show "files_of (snd (pollPods namespace timeout start w)) = files_of w"
  proof (induction namespace timeout start w rule: pollPods.induct)
    case (1 namespace timeout startTime w)
    let ?cmd = "''kubectl get pods -n '' @ namespace"
    let ?r = "shell w (started w) ?cmd"
    let ?w1 = "w\<lparr>trace := trace w @ [Exec ?cmd], clock := clock w + duration ?r, started := Suc (started w)\<rparr>"
    have ex: "exec ?cmd w = (Inr ?r, ?w1)" by (simp add: exec_def Let_def)
    show ?case
    proof (cases "clock w - startTime < timeout * 1000")
      case False
      then show ?thesis by (subst pollPods.simps) (simp add: io_defs files_of_def)
    next
      case intime: True
      show ?thesis
      proof (cases "exit_code ?r = 0")
        case False
        then show ?thesis using intime ex by (subst pollPods.simps) (simp add: io_defs files_of_def)
      next
        case ok: True
        show ?thesis
        proof (cases "firstNotRunning (podRows (out ?r))")
          case None
          then show ?thesis using intime ok ex by (subst pollPods.simps) (simp add: io_defs files_of_def)
        next
          case (Some ns)
          obtain name status where ns: "ns = (name, status)" by (cases ns)
          let ?msg = "''Waiting for pod '' @ shown name @ '' to be running (current status: '' @ shown status @ '')...''"
          let ?w2 = "?w1\<lparr>trace := trace ?w1 @ [Spinner ''text'' ?msg], clock := clock ?w1 + 5000\<rparr>"
          have sl: "seq (spinner ''text'' ?msg) (sleep 5000) ?w1 = (Inr (), ?w2)"
            by (simp add: io_defs sleep_def)
          have rec: "pollPods namespace timeout startTime w = pollPods namespace timeout startTime ?w2"
            using intime ok Some ns ex sl by (subst pollPods.simps) simp
          from "1.IH" [OF intime ex [symmetric] refl _ Some ns [symmetric] sl [symmetric] refl] ok
          have "files_of (snd (pollPods namespace timeout startTime ?w2)) = files_of ?w2" by simp
          then show ?thesis unfolding rec by (simp add: files_of_def)
        qed
      qed
    qed
  qed
qed

lemma files_waitForPodsReady: "keeps files_of P (waitForPodsReady namespace timeout)"
proof -
  have "keeps files_of P (\<lambda>w. pollPods namespace timeout (clock w) w)"
    using files_pollPods [of P namespace timeout] by (simp add: keeps_def)
  then show ?thesis unfolding waitForPodsReady_def by (intro keeps_rules files_prims)
qed

lemma steps_waitForPodsReady: "steps (\<lambda>e. e \<noteq> fabricating) (waitForPodsReady namespace timeout)"
proof -
  have "steps (\<lambda>e. e \<noteq> fabricating) (\<lambda>w. pollPods namespace timeout (clock w) w)"
    using steps_pollPods [of namespace timeout] by (simp add: steps_def)
  then show ?thesis unfolding waitForPodsReady_def
    by (intro steps_rules steps_prims) (simp_all add: fabricating_def)
qed

lemma files_applyYAMLs: "keeps files_of P (applyYAMLs Kind kind files)"
proof (induction files)
  case Nil show ?case by (simp add: keeps_ret)
next
  case (Cons f files)
  show ?case unfolding applyYAMLs.simps
    by (intro keeps_rules files_prims Cons.IH)
qed

lemma steps_applyYAMLs:
  assumes "Kind = ''Deployment'' \<or> Kind = ''Service''"
  shows "steps (\<lambda>e. e \<noteq> fabricating) (applyYAMLs Kind kind files)"
proof (induction files)
  case Nil show ?case by (simp add: steps_ret)
next
  case (Cons f files)
  show ?case unfolding applyYAMLs.simps
    using assms
    by (intro steps_rules steps_prims Cons.IH) (auto simp: fabricating_def)
qed

lemma files_warnNotRunning: "keeps files_of P (warnNotRunning rows flag)"
proof (induction rows arbitrary: flag)
  case Nil show ?case by (simp add: keeps_ret)
next
  case (Cons r rows)
  show ?case unfolding warnNotRunning.simps
    by (intro keeps_rules files_prims Cons.IH)
qed

lemma steps_warnNotRunning: "steps (\<lambda>e. e \<noteq> fabricating) (warnNotRunning rows flag)"
proof (induction rows arbitrary: flag)
  case Nil show ?case by (simp add: steps_ret)
next
  case (Cons r rows)
  show ?case unfolding warnNotRunning.simps
    by (intro steps_rules steps_prims Cons.IH) (simp_all add: fabricating_def)
qed

lemma files_report:
  "keeps files_of P reportPods" "keeps files_of P (reportServices projectName)"
  unfolding reportPods_def reportServices_def
  by (intro keeps_rules files_prims files_warnNotRunning)+

lemma steps_report:
  "steps (\<lambda>e. e \<noteq> fabricating) reportPods"
  "steps (\<lambda>e. e \<noteq> fabricating) (reportServices projectName)"
  unfolding reportPods_def reportServices_def
  by ((intro steps_rules steps_prims steps_warnNotRunning); simp add: fabricating_def)+

lemma files_deployManifests:
  assumes "deploymentYAMLs \<noteq> []"
  shows "keeps files_of P (deployManifests projectName (serviceYAMLs, deploymentYAMLs))"
  unfolding deployManifests_def using assms
  by (simp add: Let_def) (intro keeps_rules files_applyYAMLs)

lemma steps_deployManifests:
  assumes "deploymentYAMLs \<noteq> []"
  shows "steps (\<lambda>e. e \<noteq> fabricating) (deployManifests projectName (serviceYAMLs, deploymentYAMLs))"
  unfolding deployManifests_def using assms
  by (simp add: Let_def) (intro steps_rules steps_applyYAMLs; simp)

lemma entry_listed:
  "map_of es n = Some (File c) \<Longrightarrow> path_join d n \<in> set (scanEntries d es)"
proof (induction es)
  case Nil then show ?case by simp
next
  case (Cons e es)
  obtain f x where e: "e = (f, x)" by (cases e)
  show ?case
  proof (cases "f = n")
    case True
    with Cons.prems e show ?thesis by simp
  next
    case False
    with Cons e show ?thesis by (cases x) simp_all
  qed
qed

lemma classify_deployment:
  "file \<in> set files \<Longrightarrow> \<not> endsWith file ''service.yaml'' \<Longrightarrow> endsWith file ''deployment.yaml''
     \<Longrightarrow> file \<in> set (snd (classifyYAML files))"
  by (induction files) (auto simp: Let_def split: prod.splits)

lemma web_deployment_suffix:
  "endsWith (path_join p ''web-deployment.yaml'') ''deployment.yaml''"
  "\<not> endsWith (path_join p ''web-deployment.yaml'') ''service.yaml''"
proof -
  have "suffix ''deployment.yaml'' ''web-deployment.yaml''"
    by (simp add: suffix_to_prefix)
  moreover have "suffix ''web-deployment.yaml'' (path_join p ''web-deployment.yaml'')"
    by (rule join_suffix) simp
  ultimately show "endsWith (path_join p ''web-deployment.yaml'') ''deployment.yaml''"
    unfolding endsWith_def by (rule suffix_order.trans)
  show "\<not> endsWith (path_join p ''web-deployment.yaml'') ''service.yaml''"
    unfolding endsWith_def
  proof
    assume "suffix ''service.yaml'' (path_join p ''web-deployment.yaml'')"
    then have "suffix ''service.yaml'' ''web-deployment.yaml''"
      by (rule suffix_join) simp_all
    then show False by (simp add: suffix_to_prefix)
  qed
qed

lemma scan_dir:
  assumes "resolve w projectPath = Some (Dir es)"
  shows "scanYAMLFiles projectPath w = (Inr (classifyYAML (scanEntries projectPath es)), w)"
  using assms resolve_ne [OF assms]
  by (simp add: scanYAMLFiles_def scanEntireDirectory_def readdir_def io_defs)

text \<open>
  The scan of a project whose \<^verbatim>\<open>web-deployment.yaml\<close> can be read: it raises (the
  project path itself is not a directory for the kernel), or it lists the file among the
  deployment manifests.
\<close>

lemma scan_has_web:
  assumes "resolve w (path_join projectPath ''web-deployment.yaml'') = Some (File c)"
  shows "(\<exists>e. scanYAMLFiles projectPath w = (Inl e, w))
       \<or> (\<exists>es. resolve w projectPath = Some (Dir es)
              \<and> scanYAMLFiles projectPath w = (Inr (classifyYAML (scanEntries projectPath es)), w)
              \<and> path_join projectPath ''web-deployment.yaml''
                  \<in> set (snd (classifyYAML (scanEntries projectPath es))))"
proof (cases "\<exists>es. resolve w projectPath = Some (Dir es)")
  case True
  then obtain es where dir: "resolve w projectPath = Some (Dir es)" by blast
  then have ne: "projectPath \<noteq> []" by (rule resolve_ne)
  from assms have f: "map_of es ''web-deployment.yaml'' = Some (File c)"
    by (simp add: resolve_join [OF dir])
  have run: "scanYAMLFiles projectPath w = (Inr (classifyYAML (scanEntries projectPath es)), w)"
    using ne dir
    by (simp add: scanYAMLFiles_def scanEntireDirectory_def readdir_def io_defs)
  have "path_join projectPath ''web-deployment.yaml'' \<in> set (snd (classifyYAML (scanEntries projectPath es)))"
    by (intro classify_deployment entry_listed [OF f] web_deployment_suffix)
  with run dir show ?thesis by blast
next
  case False
  then have "\<exists>e. scanYAMLFiles projectPath w = (Inl e, w)"
    by (cases "resolve w projectPath"; cases "the (resolve w projectPath)")
       (auto simp: scanYAMLFiles_def scanEntireDirectory_def readdir_def io_defs)
  then show ?thesis by blast
qed

lemma scan_with_web:
  assumes "resolve w (path_join projectPath ''web-deployment.yaml'') = Some (File c)"
      and "fst (scanYAMLFiles projectPath w) = Inr (serviceYAMLs, deploymentYAMLs)"
  shows "path_join projectPath ''web-deployment.yaml'' \<in> set deploymentYAMLs"
  using scan_has_web [OF assms(1)] assms(2) by auto

text \<open>A write leaves every directory a directory.\<close>

lemma writeFile_keeps_dir:
  assumes "writeFile q content w = (Inr (), w')" and "resolve w p = Some (Dir es)"
  shows "\<exists>es'. resolve w' p = Some (Dir es')"
proof -
  from assms(1) obtain T root' where t: "target (fs w) (cwd w) q = Inr T"
    and wr: "write_at q T content (fs w) = Inr root'"
    and w': "w' = w\<lparr>fs := root', trace := trace w @ [Write q content]\<rparr>"
    by (auto simp: writeFile_def split: sum.splits)
  from assms(2) obtain loc where l: "locate (fs w) (cwd w) p = Inr loc"
    and dir: "lookup_at loc (fs w) = Some (Dir es)" by (auto simp: resolve_Some)
  from l have ne: "p \<noteq> []" and n: "namei (fs w) [] (components (cwd w) p) = Inr loc"
    by (auto simp: locate_def split: if_splits)
  from namei_write [OF n wr] ne have l': "locate root' (cwd w) p = Inr loc"
    by (simp add: locate_def)
  from write_at_kind [OF wr dir] obtain es' where "lookup_at loc root' = Some (Dir es')"
    by (metis isDirectory.elims(2) isDirectory.simps(1))
  with l' show ?thesis by (simp add: resolve_def w')
qed

lemma files_updateContainers: "keeps files_of P (updateContainers elements newImage)"
proof (induction elements)
  case Nil show ?case by (simp add: keeps_ret)
next
  case (Cons c cs)
  show ?case unfolding updateContainers.simps
    by (intro keeps_rules files_prims Cons.IH)
qed

lemma steps_updateContainers: "steps (\<lambda>e. e \<noteq> fabricating) (updateContainers elements newImage)"
proof (induction elements)
  case Nil show ?case by (simp add: steps_ret)
next
  case (Cons c cs)
  show ?case unfolding updateContainers.simps
    by (intro steps_rules steps_prims Cons.IH) (simp_all add: fabricating_def)
qed

lemma steps_updateWebDeploymentImage:
  "steps (\<lambda>e. e \<noteq> fabricating) (updateWebDeploymentImage L projectPath projectName imageTag)"
  unfolding updateWebDeploymentImage_def
  by (simp add: Let_def) ((intro steps_rules steps_prims steps_updateContainers); simp add: fabricating_def)

lemma bind_Inr:
  assumes "bind m f w = (Inr y, w1)"
  obtains x w' where "m w = (Inr x, w')" and "f x w' = (Inr y, w1)"
  using assms by (auto simp: bind_def split: prod.splits sum.splits)

lemma seq_Inr:
  assumes "seq m n w = (Inr y, w1)"
  obtains w' where "m w = (Inr (), w')" and "n w' = (Inr y, w1)"
  using assms unfolding seq_def by (auto elim!: bind_Inr)

lemma catch_rethrow_Inr:
  assumes "catch m (\<lambda>e. seq (log (s e)) (throw e)) w = (Inr x, w1)"
  shows "m w = (Inr x, w1)"
proof (cases "m w")
  case (Pair r w')
  show ?thesis
  proof (cases r)
    case (Inr y)
    with Pair assms show ?thesis by (simp add: catch_def)
  next
    case (Inl e)
    with Pair assms show ?thesis by (cases e) (simp_all add: io_defs)
  qed
qed

lemma catch_rethrow:
  "\<exists>evs. catch m (\<lambda>e. seq (log (s e)) (throw e)) w
            = (fst (m w), (snd (m w))\<lparr>trace := trace (snd (m w)) @ evs\<rparr>)
         \<and> (evs = [] \<or> (\<exists>e. evs = [Log (s e)]))"
proof (cases "m w")
  case (Pair r w')
  show ?thesis
  proof (cases r)
    case (Inr y)
    with Pair show ?thesis by (intro exI [of _ "[]"]) (simp add: catch_def)
  next
    case (Inl e)
    show ?thesis
    proof (cases "\<exists>e'. e = Crash e'")
      case True
      with Pair Inl show ?thesis by (intro exI [of _ "[]"]) (auto simp: catch_def)
    next
      case False
      with Pair Inl show ?thesis
        by (intro exI [of _ "[Log (s e)]"]) (cases e; simp add: io_defs; blast)
    qed
  qed
qed

lemma readFile_Inr:
  assumes "readFile p w = (Inr c, w')"
  shows "w' = w \<and> resolve w p = Some (File c)"
  using assms by (auto simp: readFile_def split: option.splits node.splits)

lemma of_result_Inr:
  assumes "of_result r w = (Inr x, w')"
  shows "w' = w \<and> r = Inr x"
  using assms by (auto simp: of_result_def)

lemma keeps_files_run:
  assumes "keeps files_of (\<lambda>x. True) m" and "m w = (r, w')"
  shows "fs w' = fs w" "cwd w' = cwd w" "writes (trace w') = writes (trace w)"
  using assms by (auto simp: keeps_def files_of_def dest!: spec [of _ w])

lemma update_Inr:
  assumes "updateWebDeploymentImage L projectPath projectName imageTag w = (Inr (), w1)"
  shows "\<exists>wa wb out. fs wa = fs w \<and> cwd wa = cwd w
           \<and> writeFile (path_join projectPath ''web-deployment.yaml'') out wa = (Inr (), wb)
           \<and> fs w1 = fs wb \<and> cwd w1 = cwd wb"
proof -
  let ?path = "path_join projectPath ''web-deployment.yaml''"
  from assms have inner: "bind (readFile ?path) (\<lambda>fileContents.
         bind (of_result (yaml_load L fileContents)) (\<lambda>deploymentYaml.
         bind (of_result (getProp deploymentYaml ''spec'')) (\<lambda>spec1.
         bind (of_result (getProp spec1 ''template'')) (\<lambda>template.
         bind (of_result (getProp template ''spec'')) (\<lambda>spec2.
         bind (of_result (getProp spec2 ''containers'')) (\<lambda>containers.
         bind (of_result (iterate containers)) (\<lambda>elements.
         bind (updateContainers elements (projectName @ '':'' @ imageTag)) (\<lambda>elements'.
         seq (writeFile ?path
                (yaml_dump L (assignPath deploymentYaml containersPath
                                (updated containers elements'))))
             (log (''Updated web-deployment.yaml with new image: '' @ projectName
                   @ '':'' @ imageTag))))))))))  w = (Inr (), w1)"
    unfolding updateWebDeploymentImage_def Let_def by (rule catch_rethrow_Inr)
  then obtain doc cont els els' wa wb where
    uc: "updateContainers els (projectName @ '':'' @ imageTag) w = (Inr els', wa)"
    and wr: "writeFile ?path (yaml_dump L (assignPath doc containersPath (updated cont els'))) wa = (Inr (), wb)"
    and lg: "log (''Updated web-deployment.yaml with new image: '' @ projectName @ '':'' @ imageTag) wb = (Inr (), w1)"
    by (auto elim!: bind_Inr seq_Inr dest!: readFile_Inr of_result_Inr)
  from keeps_files_run [OF files_updateContainers uc]
  have "fs wa = fs w" "cwd wa = cwd w" by simp_all
  moreover from lg have "fs w1 = fs wb" "cwd w1 = cwd wb" by (auto simp: io_defs)
  ultimately show ?thesis using wr by blast
qed

lemma update_success:
  assumes "updateWebDeploymentImage L projectPath projectName imageTag w = (Inr (), w1)"
  shows "\<exists>c. resolve w1 (path_join projectPath ''web-deployment.yaml'') = Some (File c)"
proof -
  let ?path = "path_join projectPath ''web-deployment.yaml''"
  from update_Inr [OF assms] obtain wa wb out where
    wr: "writeFile ?path out wa = (Inr (), wb)" and same: "fs w1 = fs wb" "cwd w1 = cwd wb"
    by blast
  from writeFile_Inr [OF wr] have "resolve wb ?path = Some (File out)" by blast
  moreover have "resolve w1 ?path = resolve wb ?path" using same by (rule resolve_same)
  ultimately show ?thesis by simp
qed

lemma update_keeps_dir:
  assumes "updateWebDeploymentImage L projectPath projectName imageTag w = (Inr (), w1)"
      and "resolve w p = Some (Dir es)"
  shows "\<exists>es'. resolve w1 p = Some (Dir es')"
proof -
  let ?path = "path_join projectPath ''web-deployment.yaml''"
  from update_Inr [OF assms(1)] obtain wa wb out where
    a: "fs wa = fs w" "cwd wa = cwd w"
    and wr: "writeFile ?path out wa = (Inr (), wb)" and b: "fs w1 = fs wb" "cwd w1 = cwd wb"
    by blast
  have "resolve wa p = resolve w p" using a by (rule resolve_same)
  with assms(2) have "resolve wa p = Some (Dir es)" by simp
  from writeFile_keeps_dir [OF wr this] obtain es' where "resolve wb p = Some (Dir es')" by blast
  moreover have "resolve w1 p = resolve wb p" using b by (rule resolve_same)
  ultimately show ?thesis by simp
qed

lemma files_deployFound:
  assumes "deploymentYAMLs \<noteq> []"
  shows "keeps files_of P (deployFound L projectName (serviceYAMLs, deploymentYAMLs))"
  unfolding deployFound_def
  by (simp, intro keeps_rules files_prims files_deployManifests [OF assms]
        files_waitForPodsReady files_report)

lemma steps_deployFound:
  assumes "deploymentYAMLs \<noteq> []"
  shows "steps (\<lambda>e. e \<noteq> fabricating) (deployFound L projectName (serviceYAMLs, deploymentYAMLs))"
  unfolding deployFound_def
  by (simp, (intro steps_rules steps_prims steps_deployManifests [OF assms]
        steps_waitForPodsReady steps_report); simp add: fabricating_def)

lemma seq_spinner: "seq (spinner k s) n w = n (w\<lparr>trace := trace w @ [Spinner k s]\<rparr>)"
  by (simp add: io_defs)

lemma tail_run:
  assumes web: "resolve w1 (path_join projectPath ''web-deployment.yaml'') = Some (File c)"
  shows "files_of (snd (seq (log s) (bind (scanYAMLFiles projectPath) (deployFound L projectName)) w1))
           = files_of w1
       \<and> (\<exists>evs. trace (snd (seq (log s) (bind (scanYAMLFiles projectPath) (deployFound L projectName)) w1))
                  = trace w1 @ Log s # evs
               \<and> list_all (\<lambda>e. e \<noteq> fabricating) evs)"
proof -
  let ?w = "w1\<lparr>trace := trace w1 @ [Log s]\<rparr>"
  have web': "resolve ?w (path_join projectPath ''web-deployment.yaml'') = Some (File c)"
    using web by simp
  from scan_has_web [OF web'] consider
      (raises) e where "scanYAMLFiles projectPath ?w = (Inl e, ?w)"
    | (lists) sv dp where "scanYAMLFiles projectPath ?w = (Inr (sv, dp), ?w)"
        "path_join projectPath ''web-deployment.yaml'' \<in> set dp"
    by (metis prod.collapse)
  then show ?thesis
  proof cases
    case raises
    then have "seq (log s) (bind (scanYAMLFiles projectPath) (deployFound L projectName)) w1
                 = (Inl e, ?w)"
      by (simp add: io_defs)
    then show ?thesis by (simp add: files_of_def)
  next
    case lists
    from lists(2) have dp: "dp \<noteq> []" by auto
    have run: "seq (log s) (bind (scanYAMLFiles projectPath) (deployFound L projectName)) w1
                 = deployFound L projectName (sv, dp) ?w"
      using lists(1) by (simp add: io_defs)
    from files_deployFound [OF dp, of "\<lambda>x. True" L projectName sv]
    have f: "files_of (snd (deployFound L projectName (sv, dp) ?w)) = files_of ?w"
      by (simp add: keeps_def)
    have "\<exists>evs. trace (snd (deployFound L projectName (sv, dp) ?w)) = trace ?w @ evs
             \<and> list_all (\<lambda>e. e \<noteq> fabricating) evs"
      using steps_deployFound [OF dp, of L projectName sv] unfolding steps_def by blast
    then obtain evs where "trace (snd (deployFound L projectName (sv, dp) ?w)) = trace ?w @ evs"
      "list_all (\<lambda>e. e \<noteq> fabricating) evs" by blast
    with f show ?thesis unfolding run by (simp add: files_of_def)
  qed
qed

lemma deployKubernetes_run:
  assumes ne: "projectPath \<noteq> []"
  shows "(\<exists>evs. trace (snd (deployKubernetes L projectName projectPath w)) = trace w @ evs
               \<and> list_all (\<lambda>e. e \<noteq> fabricating) evs)
       \<and> (\<forall>w1. updateWebDeploymentImage L projectPath projectName ''latest''
                   (w\<lparr>trace := trace w @ [Spinner ''start'' ''Deploying to Kubernetes...'']\<rparr>) = (Inr (), w1)
               \<longrightarrow> fs (snd (deployKubernetes L projectName projectPath w)) = fs w1
                 \<and> cwd (snd (deployKubernetes L projectName projectPath w)) = cwd w1)"
proof -
  let ?w0 = "w\<lparr>trace := trace w @ [Spinner ''start'' ''Deploying to Kubernetes...'']\<rparr>"
  let ?s = "''Starting deployment to Kubernetes for project: '' @ projectName @ '' at path: '' @ projectPath"
  let ?tail = "seq (log ?s) (bind (scanYAMLFiles projectPath) (deployFound L projectName))"
  let ?body = "seq (updateWebDeploymentImage L projectPath projectName ''latest'') ?tail"
  let ?h = "\<lambda>e. ''Failed to deploy on Kubernetes: '' @ stack e"
  have dk: "deployKubernetes L projectName projectPath w
              = catch ?body (\<lambda>e. seq (log (?h e)) (throw e)) ?w0"
    by (simp only: deployKubernetes_def seq_spinner ne if_False)
  from catch_rethrow [of ?body ?h ?w0] obtain hv where
    c: "catch ?body (\<lambda>e. seq (log (?h e)) (throw e)) ?w0
          = (fst (?body ?w0), (snd (?body ?w0))\<lparr>trace := trace (snd (?body ?w0)) @ hv\<rparr>)"
    and hv: "hv = [] \<or> (\<exists>e. hv = [Log (?h e)])" by blast
  from hv have hq: "list_all (\<lambda>e. e \<noteq> fabricating) hv" by (auto simp: fabricating_def)
  obtain r w1 where u: "updateWebDeploymentImage L projectPath projectName ''latest'' ?w0 = (r, w1)"
    by (cases "updateWebDeploymentImage L projectPath projectName ''latest'' ?w0")
  have "\<exists>ue. trace (snd (updateWebDeploymentImage L projectPath projectName ''latest'' ?w0)) = trace ?w0 @ ue
           \<and> list_all (\<lambda>e. e \<noteq> fabricating) ue"
    using steps_updateWebDeploymentImage [of L projectPath projectName "''latest''"]
    unfolding steps_def by blast
  then obtain ue where ue: "trace w1 = trace ?w0 @ ue" "list_all (\<lambda>e. e \<noteq> fabricating) ue"
    unfolding u by auto
  show ?thesis
  proof (cases r)
    case (Inl e)
    then have b: "?body ?w0 = (Inl e, w1)" using u by (simp add: seq_def bind_def)
    have "trace (snd (deployKubernetes L projectName projectPath w))
            = trace w @ (Spinner ''start'' ''Deploying to Kubernetes...'' # ue @ hv)"
      unfolding dk c b using ue by simp
    moreover have "list_all (\<lambda>e. e \<noteq> fabricating) (Spinner ''start'' ''Deploying to Kubernetes...'' # ue @ hv)"
      using ue hq by (simp add: fabricating_def)
    ultimately have A: "\<exists>evs. trace (snd (deployKubernetes L projectName projectPath w)) = trace w @ evs
               \<and> list_all (\<lambda>e. e \<noteq> fabricating) evs" by blast
    show ?thesis by (rule conjI [OF A]) (simp add: u Inl)
  next
    case (Inr x)
    then have u': "updateWebDeploymentImage L projectPath projectName ''latest'' ?w0 = (Inr (), w1)"
      using u by simp
    then have b: "?body ?w0 = ?tail w1" by (simp add: seq_def bind_def)
    from update_success [OF u'] obtain c where
      "resolve w1 (path_join projectPath ''web-deployment.yaml'') = Some (File c)" by blast
    from tail_run [OF this, of ?s L projectName] obtain te where
      f: "files_of (snd (?tail w1)) = files_of w1"
      and t: "trace (snd (?tail w1)) = trace w1 @ Log ?s # te" "list_all (\<lambda>e. e \<noteq> fabricating) te"
      by blast
    have "trace (snd (deployKubernetes L projectName projectPath w))
            = trace w @ (Spinner ''start'' ''Deploying to Kubernetes...'' # ue @ Log ?s # te @ hv)"
      unfolding dk c b using ue t by simp
    moreover have "list_all (\<lambda>e. e \<noteq> fabricating)
                     (Spinner ''start'' ''Deploying to Kubernetes...'' # ue @ Log ?s # te @ hv)"
      using ue hq t by (simp add: fabricating_def)
    ultimately have A: "\<exists>evs. trace (snd (deployKubernetes L projectName projectPath w)) = trace w @ evs
               \<and> list_all (\<lambda>e. e \<noteq> fabricating) evs" by blast
    have "fs (snd (deployKubernetes L projectName projectPath w)) = fs w1"
      "cwd (snd (deployKubernetes L projectName projectPath w)) = cwd w1"
      unfolding dk c b using f by (simp_all add: files_of_def)
    then show ?thesis by (intro conjI [OF A]) (simp add: u')
  qed
qed

lemma deployKubernetes_unread:
  assumes "projectPath \<noteq> []"
      and "\<forall>c. resolve w (path_join projectPath ''web-deployment.yaml'') \<noteq> Some (File c)"
  shows "\<exists>e. fst (readFile (path_join projectPath ''web-deployment.yaml'') w) = Inl e
           \<and> (resolve w (path_join projectPath ''web-deployment.yaml'') = None \<longrightarrow>
                e = sys_error (failure w (path_join projectPath ''web-deployment.yaml'')) ''open''
                      (path_join projectPath ''web-deployment.yaml''))
           \<and> deployKubernetes L projectName projectPath w =
               (Inl e,
                w\<lparr>trace := trace w @
                   [Spinner ''start'' ''Deploying to Kubernetes...'',
                    Log (''Error updating web-deployment.yaml: '' @ message e),
                    Log (''Failed to deploy on Kubernetes: '' @ stack e)]\<rparr>)"
proof (cases "resolve w (path_join projectPath ''web-deployment.yaml'')")
  case None
  show ?thesis
    using assms(1) None
    by (cases "failure w (path_join projectPath ''web-deployment.yaml'')")
       (simp_all add: deployKubernetes_def updateWebDeploymentImage_def readFile_def io_defs Let_def)
next
  case (Some n)
  with assms(2) obtain es where "n = Dir es" by (cases n) auto
  with Some assms(1) show ?thesis
    by (simp add: deployKubernetes_def updateWebDeploymentImage_def readFile_def io_defs Let_def)
qed

lemma deployKubernetes_guard:
  "deployKubernetes L projectName [] w =
     (Inl (Error ''projectPath is undefined or invalid.''),
      w\<lparr>trace := trace w @
         [Spinner ''start'' ''Deploying to Kubernetes...'',
          Log (''Failed to deploy on Kubernetes: ''
               @ stack (Error ''projectPath is undefined or invalid.''))]\<rparr>)"
  by (simp add: deployKubernetes_def io_defs)

text \<open>
  C10, corrected. With a project path that is not empty and no regular file
  \<^verbatim>\<open>web-deployment.yaml\<close> at the project root, the driver fails in the image-rewrite step
  with the error of the read, having scanned, written and run nothing; with the empty
  path it fails before that step, in its own check of the path. No run of the driver
  reaches the branch that makes default manifests: when the rewrite step has succeeded,
  a scan that succeeds lists \<^verbatim>\<open>web-deployment.yaml\<close> among the deployment manifests.
\<close>

theorem deployKubernetes_never_fabricates:
  "(projectPath \<noteq> []
      \<and> (\<forall>c. resolve w (path_join projectPath ''web-deployment.yaml'') \<noteq> Some (File c)) \<longrightarrow>
      (\<exists>e. fst (readFile (path_join projectPath ''web-deployment.yaml'') w) = Inl e
          \<and> (resolve w (path_join projectPath ''web-deployment.yaml'') = None \<longrightarrow>
               e = sys_error (failure w (path_join projectPath ''web-deployment.yaml'')) ''open''
                     (path_join projectPath ''web-deployment.yaml''))
          \<and> deployKubernetes L projectName projectPath w =
              (Inl e,
               w\<lparr>trace := trace w @
                  [Spinner ''start'' ''Deploying to Kubernetes...'',
                   Log (''Error updating web-deployment.yaml: '' @ message e),
                   Log (''Failed to deploy on Kubernetes: '' @ stack e)]\<rparr>)))
   \<and> (projectPath = [] \<longrightarrow>
        deployKubernetes L projectName projectPath w =
          (Inl (Error ''projectPath is undefined or invalid.''),
           w\<lparr>trace := trace w @
              [Spinner ''start'' ''Deploying to Kubernetes...'',
               Log (''Failed to deploy on Kubernetes: ''
                    @ stack (Error ''projectPath is undefined or invalid.''))]\<rparr>))
   \<and> (\<exists>evs. trace (snd (deployKubernetes L projectName projectPath w)) = trace w @ evs
            \<and> fabricating \<notin> set evs)
   \<and> (\<forall>w0 w1 serviceYAMLs deploymentYAMLs.
        updateWebDeploymentImage L projectPath projectName ''latest'' w0 = (Inr (), w1)
        \<and> fst (scanYAMLFiles projectPath w1) = Inr (serviceYAMLs, deploymentYAMLs) \<longrightarrow>
        path_join projectPath ''web-deployment.yaml'' \<in> set deploymentYAMLs)"
proof (intro conjI impI allI)
  assume "projectPath \<noteq> []
      \<and> (\<forall>c. resolve w (path_join projectPath ''web-deployment.yaml'') \<noteq> Some (File c))"
  then show "\<exists>e. fst (readFile (path_join projectPath ''web-deployment.yaml'') w) = Inl e
          \<and> (resolve w (path_join projectPath ''web-deployment.yaml'') = None \<longrightarrow>
               e = sys_error (failure w (path_join projectPath ''web-deployment.yaml'')) ''open''
                     (path_join projectPath ''web-deployment.yaml''))
          \<and> deployKubernetes L projectName projectPath w =
              (Inl e,
               w\<lparr>trace := trace w @
                  [Spinner ''start'' ''Deploying to Kubernetes...'',
                   Log (''Error updating web-deployment.yaml: '' @ message e),
                   Log (''Failed to deploy on Kubernetes: '' @ stack e)]\<rparr>)"
    by (intro deployKubernetes_unread) simp_all
next
  assume "projectPath = []"
  then show "deployKubernetes L projectName projectPath w =
          (Inl (Error ''projectPath is undefined or invalid.''),
           w\<lparr>trace := trace w @
              [Spinner ''start'' ''Deploying to Kubernetes...'',
               Log (''Failed to deploy on Kubernetes: ''
                    @ stack (Error ''projectPath is undefined or invalid.''))]\<rparr>)"
    by (simp only: deployKubernetes_guard)
next
  show "\<exists>evs. trace (snd (deployKubernetes L projectName projectPath w)) = trace w @ evs
                \<and> fabricating \<notin> set evs"
  proof (cases "projectPath = []")
    case True
    show ?thesis unfolding True deployKubernetes_guard
      by (intro exI [of _ "[Spinner ''start'' ''Deploying to Kubernetes...'',
               Log (''Failed to deploy on Kubernetes: ''
                    @ stack (Error ''projectPath is undefined or invalid.''))]"])
         (simp add: fabricating_def)
  next
    case False
    from deployKubernetes_run [OF False, of L projectName w] obtain evs where
      "trace (snd (deployKubernetes L projectName projectPath w)) = trace w @ evs"
      "list_all (\<lambda>e. e \<noteq> fabricating) evs" by blast
    then show ?thesis by (auto simp: list_all_iff)
  qed
next
  fix w0 w1 serviceYAMLs deploymentYAMLs
  assume a: "updateWebDeploymentImage L projectPath projectName ''latest'' w0 = (Inr (), w1)
        \<and> fst (scanYAMLFiles projectPath w1) = Inr (serviceYAMLs, deploymentYAMLs)"
  from update_success [of L projectPath projectName "''latest''" w0 w1] a obtain c where
    "resolve w1 (path_join projectPath ''web-deployment.yaml'') = Some (File c)" by blast
  from scan_with_web [OF this] a
  show "path_join projectPath ''web-deployment.yaml'' \<in> set deploymentYAMLs" by blast
qed

lemma getProp_defined:
  assumes "getProp v k = Inr x" and "x \<noteq> JUndefined"
  obtains kvs where "v = JObj kvs" and "map_of kvs k = Some x"
  using assms by (cases v) (auto split: option.splits)

lemma containersOf_assign:
  assumes "containersOf doc = Inr (JArr cs)"
  shows "containersOf (assignPath doc containersPath x) = Inr x"
proof -
  from assms obtain s1 t s2 where
    1: "getProp doc ''spec'' = Inr s1" and 2: "getProp s1 ''template'' = Inr t"
    and 3: "getProp t ''spec'' = Inr s2" and 4: "getProp s2 ''containers'' = Inr (JArr cs)"
    by (auto simp: containersOf_def split: sum.splits)
  from 4 obtain k2 where s2: "s2 = JObj k2" "map_of k2 ''containers'' = Some (JArr cs)"
    by (rule getProp_defined) simp
  from 3 s2 obtain kt where t: "t = JObj kt" "map_of kt ''spec'' = Some s2"
    by (auto elim!: getProp_defined)
  from 2 t obtain k1 where s1: "s1 = JObj k1" "map_of k1 ''template'' = Some t"
    by (auto elim!: getProp_defined)
  from 1 s1 obtain kd where d: "doc = JObj kd" "map_of kd ''spec'' = Some s1"
    by (auto elim!: getProp_defined)
  show ?thesis
    using s2 t s1 d by (simp add: containersOf_def containersPath_def update_conv')
qed

lemma retag_props:
  "isMapping c \<Longrightarrow>
     getProp (retag img c) ''image'' = Inr (JStr img)
   \<and> getProp (retag img c) ''imagePullPolicy'' = Inr (JStr ''IfNotPresent'')"
  by (cases c) (simp_all add: update_conv')

lemma updateContainers_run:
  "list_all isMapping cs \<Longrightarrow>
     \<exists>evs. updateContainers cs img w = (Inr (map (retag img) cs), w\<lparr>trace := trace w @ evs\<rparr>)"
proof (induction cs arbitrary: w)
  case Nil
  show ?case by (intro exI [of _ "[]"]) (simp add: ret_def)
next
  case (Cons c cs)
  then obtain kvs where c: "c = JObj kvs" by (cases c) auto
  let ?old = "case map_of kvs ''image'' of None \<Rightarrow> JUndefined | Some v \<Rightarrow> v"
  let ?l = "Log (''Updated image from '' @ toString ?old @ '' to '' @ img @ '' in web-deployment.yaml'')"
  let ?w = "w\<lparr>trace := trace w @ [?l]\<rparr>"
  from Cons.IH [of ?w] Cons.prems obtain evs where
    r: "updateContainers cs img ?w = (Inr (map (retag img) cs), ?w\<lparr>trace := trace ?w @ evs\<rparr>)"
    by auto
  show ?case
    using r by (intro exI [of _ "?l # evs"]) (simp add: c io_defs)
qed

lemma update_run:
  assumes fileA: "resolve w (path_join projectPath ''web-deployment.yaml'') = Some (File contents)"
      and load: "yaml_load L contents = Inr doc"
      and cont: "containersOf doc = Inr (JArr cs)"
      and maps: "list_all isMapping cs"
  shows "\<exists>root' evs. updateWebDeploymentImage L projectPath projectName imageTag w
           = (Inr (), w\<lparr>fs := root', trace := trace w @ evs\<rparr>)
         \<and> resolve (w\<lparr>fs := root'\<rparr>) (path_join projectPath ''web-deployment.yaml'')
             = Some (File (yaml_dump L (assignPath doc containersPath
                   (JArr (map (retag (projectName @ '':'' @ imageTag)) cs)))))"
proof -
  let ?path = "path_join projectPath ''web-deployment.yaml''"
  let ?img = "projectName @ '':'' @ imageTag"
  let ?out = "yaml_dump L (assignPath doc containersPath (JArr (map (retag ?img) cs)))"
  from cont obtain s1 t s2 where
    ch: "getProp doc ''spec'' = Inr s1" "getProp s1 ''template'' = Inr t"
      "getProp t ''spec'' = Inr s2" "getProp s2 ''containers'' = Inr (JArr cs)"
    by (auto simp: containersOf_def split: sum.splits)
  from updateContainers_run [OF maps, of ?img w] obtain evs where
    uc: "updateContainers cs ?img w = (Inr (map (retag ?img) cs), w\<lparr>trace := trace w @ evs\<rparr>)"
    by blast
  let ?wa = "w\<lparr>trace := trace w @ evs\<rparr>"
  have "resolve ?wa ?path = Some (File contents)" using fileA by simp
  from writeFile_file [OF this, of ?out] obtain root' where
    wr: "writeFile ?path ?out ?wa = (Inr (), ?wa\<lparr>fs := root', trace := trace ?wa @ [Write ?path ?out]\<rparr>)"
    and r: "resolve (?wa\<lparr>fs := root'\<rparr>) ?path = Some (File ?out)" by blast
  have "updateWebDeploymentImage L projectPath projectName imageTag w
          = (Inr (), w\<lparr>fs := root', trace := trace w @ (evs @ [Write ?path ?out,
               Log (''Updated web-deployment.yaml with new image: '' @ ?img)])\<rparr>)"
    using fileA load ch uc wr
    by (simp add: updateWebDeploymentImage_def readFile_def io_defs Let_def)
  moreover have "resolve (w\<lparr>fs := root'\<rparr>) ?path = resolve (?wa\<lparr>fs := root'\<rparr>) ?path"
    by (intro resolve_same) simp_all
  with r have "resolve (w\<lparr>fs := root'\<rparr>) ?path = Some (File ?out)" by simp
  ultimately show ?thesis by blast
qed

text \<open>
  C5. The driver takes no image tag. When \<^verbatim>\<open>web-deployment.yaml\<close> holds a document whose
  containers are mappings, then after the driver has run, whatever the later steps did,
  the file holds the dump of that document with every container's image set to
  \<^verbatim>\<open>name:latest\<close> and its \<^verbatim>\<open>imagePullPolicy\<close> set to \<^verbatim>\<open>IfNotPresent\<close>.
\<close>

theorem deployKubernetes_rewrites_to_latest:
  assumes "projectPath \<noteq> []"
      and "resolve w (path_join projectPath ''web-deployment.yaml'') = Some (File contents)"
      and "yaml_load L contents = Inr doc"
      and "containersOf doc = Inr (JArr cs)"
      and "list_all isMapping cs"
  shows "resolve (snd (deployKubernetes L projectName projectPath w))
             (path_join projectPath ''web-deployment.yaml'')
           = Some (File (yaml_dump L (assignPath doc containersPath
                 (JArr (map (retag (projectName @ '':latest'')) cs)))))
       \<and> containersOf (assignPath doc containersPath (JArr (map (retag (projectName @ '':latest'')) cs)))
           = Inr (JArr (map (retag (projectName @ '':latest'')) cs))
       \<and> list_all (\<lambda>c. getProp c ''image'' = Inr (JStr (projectName @ '':latest''))
                      \<and> getProp c ''imagePullPolicy'' = Inr (JStr ''IfNotPresent''))
            (map (retag (projectName @ '':latest'')) cs)"
proof (intro conjI)
  let ?w0 = "w\<lparr>trace := trace w @ [Spinner ''start'' ''Deploying to Kubernetes...'']\<rparr>"
  let ?path = "path_join projectPath ''web-deployment.yaml''"
  have w0: "resolve ?w0 ?path = Some (File contents)" using assms(2) by simp
  have tag: "projectName @ '':'' @ ''latest'' = projectName @ '':latest''" by simp
  from update_run [OF w0 assms(3,4,5), of projectName "''latest''"] obtain root' evs where
    u: "updateWebDeploymentImage L projectPath projectName ''latest'' ?w0
          = (Inr (), ?w0\<lparr>fs := root', trace := trace ?w0 @ evs\<rparr>)"
    and r: "resolve (?w0\<lparr>fs := root'\<rparr>) ?path
             = Some (File (yaml_dump L (assignPath doc containersPath
                   (JArr (map (retag (projectName @ '':latest'')) cs)))))"
    unfolding tag by blast
  from deployKubernetes_run [OF assms(1), of L projectName w] u
  have "fs (snd (deployKubernetes L projectName projectPath w)) = root'"
    "cwd (snd (deployKubernetes L projectName projectPath w)) = cwd w"
    by auto
  then have "resolve (snd (deployKubernetes L projectName projectPath w)) ?path
               = resolve (?w0\<lparr>fs := root'\<rparr>) ?path"
    by (intro resolve_same) simp_all
  with r show "resolve (snd (deployKubernetes L projectName projectPath w)) ?path
           = Some (File (yaml_dump L (assignPath doc containersPath
                 (JArr (map (retag (projectName @ '':latest'')) cs)))))" by simp
next
  show "containersOf (assignPath doc containersPath (JArr (map (retag (projectName @ '':latest'')) cs)))
           = Inr (JArr (map (retag (projectName @ '':latest'')) cs))"
    using assms(4) by (rule containersOf_assign)
next
  show "list_all (\<lambda>c. getProp c ''image'' = Inr (JStr (projectName @ '':latest''))
                      \<and> getProp c ''imagePullPolicy'' = Inr (JStr ''IfNotPresent''))
            (map (retag (projectName @ '':latest'')) cs)"
    using assms(5) by (induction cs) (simp_all add: retag_props)
qed

lemma k8s_join: "path_join ''/proj'' ''web-deployment.yaml'' = ''/proj/web-deployment.yaml''"
  by (simp add: path_eval)

lemma raw_join: "path_join ''/nope/../proj'' ''web-deployment.yaml'' = ''/proj/web-deployment.yaml''"
  by (simp add: path_eval)

lemma k8s_resolve:
  "resolve (world_of k8s_tree quiet) (path_join ''/proj'' ''web-deployment.yaml'')
     = Some (File ''kind: Deployment'')"
  by (simp add: fs_eval k8s_join world_of_def k8s_tree_def)

lemma raw_resolve:
  "resolve (world_of k8s_tree quiet) (path_join ''/nope/../proj'' ''web-deployment.yaml'')
     = Some (File ''kind: Deployment'')"
  using k8s_resolve by (simp add: k8s_join raw_join)

lemma k8s_load: "yaml_load k8s_lib ''kind: Deployment'' = Inr web_doc"
  by (simp add: k8s_lib_def)

lemma k8s_containers:
  "containersOf web_doc
     = Inr (JArr [JObj [(''name'', JStr ''web''), (''image'', JStr ''web:v1'')],
                  JObj [(''name'', JStr ''sidecar''), (''image'', JStr ''envoy:1.0''),
                        (''imagePullPolicy'', JStr ''Always'')]])"
  by (simp add: containersOf_def web_doc_def)

lemma k8s_dump:
  "yaml_dump k8s_lib (assignPath web_doc containersPath
      (JArr (map (retag ''web:latest'')
         [JObj [(''name'', JStr ''web''), (''image'', JStr ''web:v1'')],
          JObj [(''name'', JStr ''sidecar''), (''image'', JStr ''envoy:1.0''),
                (''imagePullPolicy'', JStr ''Always'')]])))
     = ''images: web:latest,web:latest''"
  by (simp add: k8s_lib_def web_doc_def containersPath_def)

theorem deployKubernetes_rewrites_to_latest_witness:
  "resolve (world_of k8s_tree quiet) (path_join ''/proj'' ''web-deployment.yaml'')
     = Some (File ''kind: Deployment'')
   \<and> yaml_load k8s_lib ''kind: Deployment'' = Inr web_doc
   \<and> containersOf web_doc
       = Inr (JArr [JObj [(''name'', JStr ''web''), (''image'', JStr ''web:v1'')],
                    JObj [(''name'', JStr ''sidecar''), (''image'', JStr ''envoy:1.0''),
                          (''imagePullPolicy'', JStr ''Always'')]])
   \<and> resolve (snd (deployKubernetes k8s_lib ''web'' ''/proj'' (world_of k8s_tree quiet)))
         (path_join ''/proj'' ''web-deployment.yaml'')
       = Some (File ''images: web:latest,web:latest'')
   \<and> map (retag ''web:latest'')
         [JObj [(''name'', JStr ''web''), (''image'', JStr ''web:v1'')],
          JObj [(''name'', JStr ''sidecar''), (''image'', JStr ''envoy:1.0''),
                (''imagePullPolicy'', JStr ''Always'')]]
       = [JObj [(''name'', JStr ''web''), (''image'', JStr ''web:latest''),
                (''imagePullPolicy'', JStr ''IfNotPresent'')],
          JObj [(''name'', JStr ''sidecar''), (''image'', JStr ''web:latest''),
                (''imagePullPolicy'', JStr ''IfNotPresent'')]]
   \<and> resolve (world_of k8s_tree quiet) (path_join ''/nope/../proj'' ''web-deployment.yaml'')
       = Some (File ''kind: Deployment'')
   \<and> resolve (snd (deployKubernetes k8s_lib ''web'' ''/nope/../proj'' (world_of k8s_tree quiet)))
         ''/proj/web-deployment.yaml''
       = Some (File ''images: web:latest,web:latest'')"
proof -
  have ne: "''/proj'' \<noteq> []" "''/nope/../proj'' \<noteq> []" by simp_all
  have maps: "list_all isMapping
         [JObj [(''name'', JStr ''web''), (''image'', JStr ''web:v1'')],
          JObj [(''name'', JStr ''sidecar''), (''image'', JStr ''envoy:1.0''),
                (''imagePullPolicy'', JStr ''Always'')]]" by simp
  from deployKubernetes_rewrites_to_latest [OF ne(1) k8s_resolve k8s_load k8s_containers maps, of "''web''"]
    deployKubernetes_rewrites_to_latest [OF ne(2) raw_resolve k8s_load k8s_containers maps, of "''web''"]
  show ?thesis
    using k8s_resolve raw_resolve k8s_load k8s_containers k8s_dump by (simp add: raw_join)
qed

lemma unread_paths:
  "resolve (world_of built_tree quiet) (path_join ''/proj'' ''web-deployment.yaml'') = None"
  "failure (world_of built_tree quiet) (path_join ''/proj'' ''web-deployment.yaml'') = NoEntry"
  "resolve (world_of file_tree quiet) (path_join ''/notes.txt'' ''web-deployment.yaml'') = None"
  "failure (world_of file_tree quiet) (path_join ''/notes.txt'' ''web-deployment.yaml'') = NotDirectory"
  "path_join ''/notes.txt'' ''web-deployment.yaml'' = ''/notes.txt/web-deployment.yaml''"
  by (simp_all add: fs_eval path_eval world_of_def built_tree_def file_tree_def)

lemma raw_run:
  "deployKubernetes k8s_lib ''web'' ''/nope/../proj'' (world_of k8s_tree quiet)
     = (Inl (ENOENT ''scandir'' ''/nope/../proj''),
        (world_of k8s_tree quiet)
          \<lparr>fs := Dir [(''proj'', Dir [(''web-deployment.yaml'', File ''images: web:latest,web:latest''),
                                       (''web-service.yaml'', File ''kind: Service'')]),
                      (''work'', Dir [])],
           trace := [Spinner ''start'' ''Deploying to Kubernetes...'',
                     Log ''Updated image from web:v1 to web:latest in web-deployment.yaml'',
                     Log ''Updated image from envoy:1.0 to web:latest in web-deployment.yaml'',
                     Write ''/proj/web-deployment.yaml'' ''images: web:latest,web:latest'',
                     Log ''Updated web-deployment.yaml with new image: web:latest'',
                     Log ''Starting deployment to Kubernetes for project: web at path: /nope/../proj'',
                     Log (''Failed to deploy on Kubernetes: ''
                          @ stack (ENOENT ''scandir'' ''/nope/../proj''))]\<rparr>)"
  by (simp add: deployKubernetes_def updateWebDeploymentImage_def raw_join readFile_def writeFile_def
        target_def scanYAMLFiles_def scanEntireDirectory_def readdir_def
        fs_eval world_of_def k8s_tree_def k8s_lib_def web_doc_def containersPath_def io_defs Let_def)

lemma k8s_dir:
  "resolve (world_of k8s_tree quiet) ''/proj''
     = Some (Dir [(''web-deployment.yaml'', File ''kind: Deployment''),
                  (''web-service.yaml'', File ''kind: Service'')])"
  by (simp add: fs_eval world_of_def k8s_tree_def)

theorem deployKubernetes_never_fabricates_witness:
  "resolve (world_of built_tree quiet) (path_join ''/proj'' ''web-deployment.yaml'') = None
   \<and> fst (deployKubernetes no_lib ''demo'' ''/proj'' (world_of built_tree quiet))
       = Inl (ENOENT ''open'' ''/proj/web-deployment.yaml'')
   \<and> commands (trace (snd (deployKubernetes no_lib ''demo'' ''/proj'' (world_of built_tree quiet)))) = []
   \<and> writes (trace (snd (deployKubernetes no_lib ''demo'' ''/proj'' (world_of built_tree quiet)))) = []
   \<and> resolve (world_of file_tree quiet) (path_join ''/notes.txt'' ''web-deployment.yaml'') = None
   \<and> fst (deployKubernetes no_lib ''demo'' ''/notes.txt'' (world_of file_tree quiet))
       = Inl (ENOTDIR ''open'' ''/notes.txt/web-deployment.yaml'')
   \<and> fst (deployKubernetes no_lib ''demo'' [] (world_of built_tree quiet))
       = Inl (Error ''projectPath is undefined or invalid.'')
   \<and> fst (updateWebDeploymentImage k8s_lib ''/proj'' ''web'' ''latest'' (world_of k8s_tree quiet)) = Inr ()
   \<and> (\<exists>serviceYAMLs deploymentYAMLs.
         fst (scanYAMLFiles ''/proj''
               (snd (updateWebDeploymentImage k8s_lib ''/proj'' ''web'' ''latest'' (world_of k8s_tree quiet))))
           = Inr (serviceYAMLs, deploymentYAMLs)
       \<and> ''/proj/web-deployment.yaml'' \<in> set deploymentYAMLs)
   \<and> fst (deployKubernetes k8s_lib ''web'' ''/nope/../proj'' (world_of k8s_tree quiet))
       = Inl (ENOENT ''scandir'' ''/nope/../proj'')
   \<and> writes (trace (snd (deployKubernetes k8s_lib ''web'' ''/nope/../proj'' (world_of k8s_tree quiet))))
       = [(''/proj/web-deployment.yaml'', ''images: web:latest,web:latest'')]
   \<and> commands (trace (snd (deployKubernetes k8s_lib ''web'' ''/nope/../proj'' (world_of k8s_tree quiet))))
       = []"
proof -
  have maps: "list_all isMapping
         [JObj [(''name'', JStr ''web''), (''image'', JStr ''web:v1'')],
          JObj [(''name'', JStr ''sidecar''), (''image'', JStr ''envoy:1.0''),
                (''imagePullPolicy'', JStr ''Always'')]]" by simp
  from update_run [OF k8s_resolve k8s_load k8s_containers maps, of "''web''" "''latest''"]
  obtain w1 where u: "updateWebDeploymentImage k8s_lib ''/proj'' ''web'' ''latest'' (world_of k8s_tree quiet)
                        = (Inr (), w1)" by blast
  from update_keeps_dir [OF u k8s_dir] obtain es' where "resolve w1 ''/proj'' = Some (Dir es')"
    by blast
  from scan_dir [OF this] obtain sv dp where scan: "fst (scanYAMLFiles ''/proj'' w1) = Inr (sv, dp)"
    by (cases "classifyYAML (scanEntries ''/proj'' es')") auto
  note t = deployKubernetes_never_fabricates
  from t [of "''/proj''" "world_of built_tree quiet" no_lib "''demo''"] unread_paths(1,2)
  have a: "deployKubernetes no_lib ''demo'' ''/proj'' (world_of built_tree quiet) =
              (Inl (ENOENT ''open'' (path_join ''/proj'' ''web-deployment.yaml'')),
               (world_of built_tree quiet)\<lparr>trace := trace (world_of built_tree quiet) @
                 [Spinner ''start'' ''Deploying to Kubernetes...'',
                  Log (''Error updating web-deployment.yaml: ''
                       @ message (ENOENT ''open'' (path_join ''/proj'' ''web-deployment.yaml''))),
                  Log (''Failed to deploy on Kubernetes: ''
                       @ stack (ENOENT ''open'' (path_join ''/proj'' ''web-deployment.yaml'')))]\<rparr>)"
    by auto
  from t [of "''/notes.txt''" "world_of file_tree quiet" no_lib "''demo''"] unread_paths(3,4)
  have b: "fst (deployKubernetes no_lib ''demo'' ''/notes.txt'' (world_of file_tree quiet))
             = Inl (ENOTDIR ''open'' (path_join ''/notes.txt'' ''web-deployment.yaml''))"
    by auto
  from t [of "[]" "world_of built_tree quiet" no_lib "''demo''"]
  have c: "fst (deployKubernetes no_lib ''demo'' [] (world_of built_tree quiet))
             = Inl (Error ''projectPath is undefined or invalid.'')"
    by simp
  from t [of "''/proj''" "world_of k8s_tree quiet" k8s_lib "''web''"] u scan
  have "path_join ''/proj'' ''web-deployment.yaml'' \<in> set dp" by blast
  with scan have d: "\<exists>serviceYAMLs deploymentYAMLs.
         fst (scanYAMLFiles ''/proj'' w1) = Inr (serviceYAMLs, deploymentYAMLs)
       \<and> ''/proj/web-deployment.yaml'' \<in> set deploymentYAMLs"
    by (auto simp: k8s_join)
  have e: "fst (deployKubernetes k8s_lib ''web'' ''/nope/../proj'' (world_of k8s_tree quiet))
       = Inl (ENOENT ''scandir'' ''/nope/../proj'')"
    "writes (trace (snd (deployKubernetes k8s_lib ''web'' ''/nope/../proj'' (world_of k8s_tree quiet))))
       = [(''/proj/web-deployment.yaml'', ''images: web:latest,web:latest'')]"
    "commands (trace (snd (deployKubernetes k8s_lib ''web'' ''/nope/../proj'' (world_of k8s_tree quiet))))
       = []"
    unfolding raw_run by simp_all
  show ?thesis
    using unread_paths(1,3) b c d e unfolding a u
    by (simp add: world_of_def k8s_join unread_paths(5))
qed

text \<open>
  C10 as stated fails: called with the empty path, in a working directory that has no
  \<^verbatim>\<open>web-deployment.yaml\<close>, the driver raises the error of its own check of the path,
  and the image-rewrite step is not entered (it would have logged its failure).
\<close>

theorem deployKubernetes_guard_counterexample:
  "resolve (world_of k8s_tree quiet) (path_join [] ''web-deployment.yaml'') = None
   \<and> deployKubernetes no_lib ''demo'' [] (world_of k8s_tree quiet) =
       (Inl (Error ''projectPath is undefined or invalid.''),
        (world_of k8s_tree quiet)\<lparr>trace :=
           [Spinner ''start'' ''Deploying to Kubernetes...'',
            Log ''Failed to deploy on Kubernetes: Error: projectPath is undefined or invalid.'']\<rparr>)"
proof -
  have "resolve (world_of k8s_tree quiet) (path_join [] ''web-deployment.yaml'') = None"
    by (simp add: fs_eval path_eval world_of_def k8s_tree_def)
  then show ?thesis
    by (simp add: deployKubernetes_guard stack_def world_of_def)
qed

text \<open>
  C1, a defect of the code. On a project without any manifest the driver does not reach
  the branch that writes the two default manifests (lines 420 to 425): the image-rewrite
  step before it needs \<^verbatim>\<open>web-deployment.yaml\<close> and raises. Nothing is written and nothing
  is applied, although the scan of that project finds no manifest.
\<close>

theorem deployKubernetes_without_manifests:
  "fst (scanYAMLFiles ''/proj'' (world_of bare_tree quiet)) = Inr ([], [])
   \<and> resolve (world_of bare_tree quiet) ''/work'' = Some (Dir [])
   \<and> deployKubernetes no_lib ''demo'' ''/proj'' (world_of bare_tree quiet) =
       (Inl (ENOENT ''open'' ''/proj/web-deployment.yaml''),
        (world_of bare_tree quiet)\<lparr>trace :=
           [Spinner ''start'' ''Deploying to Kubernetes...'',
            Log (''Error updating web-deployment.yaml: ''
                 @ message (ENOENT ''open'' ''/proj/web-deployment.yaml'')),
            Log (''Failed to deploy on Kubernetes: ''
                 @ stack (ENOENT ''open'' ''/proj/web-deployment.yaml''))]\<rparr>)
   \<and> writes (trace (snd (deployKubernetes no_lib ''demo'' ''/proj'' (world_of bare_tree quiet)))) = []
   \<and> commands (trace (snd (deployKubernetes no_lib ''demo'' ''/proj'' (world_of bare_tree quiet)))) = []"
proof -
  have dir: "resolve (world_of bare_tree quiet) ''/proj'' = Some (Dir [(''README.md'', File ''demo'')])"
    and work: "resolve (world_of bare_tree quiet) ''/work'' = Some (Dir [])"
    by (simp_all add: fs_eval world_of_def bare_tree_def)
  have j: "path_join ''/proj'' ''README.md'' = ''/proj/README.md''" by (simp add: path_eval)
  have scan: "fst (scanYAMLFiles ''/proj'' (world_of bare_tree quiet)) = Inr ([], [])"
    by (simp add: scan_dir [OF dir] j endsWith_def suffix_to_prefix)
  have none: "resolve (world_of bare_tree quiet) (path_join ''/proj'' ''web-deployment.yaml'') = None"
    "failure (world_of bare_tree quiet) (path_join ''/proj'' ''web-deployment.yaml'') = NoEntry"
    by (simp_all add: resolve_join [OF dir] failure_join [OF dir])
  from deployKubernetes_unread [of "''/proj''" "world_of bare_tree quiet" no_lib "''demo''"] none
  have run: "deployKubernetes no_lib ''demo'' ''/proj'' (world_of bare_tree quiet) =
       (Inl (ENOENT ''open'' ''/proj/web-deployment.yaml''),
        (world_of bare_tree quiet)\<lparr>trace := trace (world_of bare_tree quiet) @
           [Spinner ''start'' ''Deploying to Kubernetes...'',
            Log (''Error updating web-deployment.yaml: ''
                 @ message (ENOENT ''open'' ''/proj/web-deployment.yaml'')),
            Log (''Failed to deploy on Kubernetes: ''
                 @ stack (ENOENT ''open'' ''/proj/web-deployment.yaml''))]\<rparr>)"
    by (auto simp: k8s_join)
  show ?thesis
    using scan work unfolding run by (simp add: world_of_def)
qed

end
